theory Spec2Isabelle
  imports Complex_Main
begin

section \<open>Conventions of the embedding\<close>

text \<open>
  The repository is JavaScript running on one event loop. Each class becomes a record of
  its fields and each method a function from the old record to the new one. Every read of
  \<^verbatim>\<open>Date.now()\<close> becomes an explicit argument in milliseconds (an \<open>int\<close>);
  counters are \<open>nat\<close>. A promise that rejects is the left summand of a sum, one that
  resolves is the right summand. An awaited caller-supplied operation is a function on an
  abstract world \<open>'w\<close>: the world it returns is the trace of its having been invoked,
  so "the operation was not invoked" reads "the world did not change, whatever the
  operation is".
\<close>

type_synonym ('w, 'e, 'a) operation = "'w \<Rightarrow> ('e + 'a) \<times> 'w"

text \<open>
  JavaScript's \<^verbatim>\<open>x || d\<close> on an optional number: the default is taken when the
  option is absent and also when it is the falsy number 0.
\<close>

definition or_default :: "'a::zero option \<Rightarrow> 'a \<Rightarrow> 'a" where
  "or_default v d = (case v of None \<Rightarrow> d | Some x \<Rightarrow> if x = 0 then d else x)"

text \<open>\<^verbatim>\<open>Math.ceil(ms / 1000)\<close> on an integer number of milliseconds.\<close>

definition ceil_seconds :: "int \<Rightarrow> int" where
  "ceil_seconds ms = - ((- ms) div 1000)"


section \<open>Circuit breaker (lib/circuit-breaker)\<close>

datatype breaker_state = CLOSED | OPEN | HALF_OPEN

record breaker_stats =
  totalCalls :: nat
  totalFailures :: nat
  totalSuccesses :: nat
  circuitOpens :: nat

record CircuitBreaker =
  threshold :: nat
  timeout :: int
  resetTimeout :: int
  state :: breaker_state
  failures :: nat
  successes :: nat
  nextAttempt :: int
  lastFailureTime :: "int option"
  stats :: breaker_stats

record breaker_options =
  opt_threshold :: "nat option"
  opt_timeout :: "int option"
  opt_resetTimeout :: "int option"

text \<open>The constructor; \<open>now\<close> is the \<^verbatim>\<open>Date.now()\<close> it reads.\<close>

definition CircuitBreaker_new :: "breaker_options \<Rightarrow> int \<Rightarrow> CircuitBreaker" where
  "CircuitBreaker_new options now =
     \<lparr> threshold = or_default (opt_threshold options) 5,
       timeout = or_default (opt_timeout options) 60000,
       resetTimeout = or_default (opt_resetTimeout options) 120000,
       state = CLOSED,
       failures = 0,
       successes = 0,
       nextAttempt = now,
       lastFailureTime = None,
       stats = \<lparr> totalCalls = 0, totalFailures = 0, totalSuccesses = 0, circuitOpens = 0 \<rparr> \<rparr>"

text \<open>
  What \<^verbatim>\<open>execute\<close> throws: the breaker's own error, carrying the operation name and
  the number of seconds of its message, or the operation's error rethrown unchanged.
\<close>

datatype 'e breaker_error = CircuitOpenError string int | OperationError 'e

definition onSuccess :: "CircuitBreaker \<Rightarrow> int \<Rightarrow> CircuitBreaker" where
  "onSuccess cb now =
     (let cb1 = cb\<lparr> failures := 0,
                    successes := successes cb + 1,
                    stats := (stats cb)\<lparr> totalSuccesses := totalSuccesses (stats cb) + 1 \<rparr> \<rparr>;
          cb2 = (if state cb1 = HALF_OPEN then cb1\<lparr> state := CLOSED \<rparr> else cb1)
      in case lastFailureTime cb2 of
           None \<Rightarrow> cb2
         | Some t \<Rightarrow>
             if t \<noteq> 0 \<and> now - t > resetTimeout cb2
             then cb2\<lparr> successes := 1, lastFailureTime := None \<rparr>
             else cb2)"

definition onFailure :: "CircuitBreaker \<Rightarrow> int \<Rightarrow> CircuitBreaker" where
  "onFailure cb now =
     (let cb1 = cb\<lparr> failures := failures cb + 1,
                    stats := (stats cb)\<lparr> totalFailures := totalFailures (stats cb) + 1 \<rparr>,
                    lastFailureTime := Some now \<rparr>
      in if state cb1 = HALF_OPEN then
           cb1\<lparr> state := OPEN,
                nextAttempt := now + timeout cb1,
                stats := (stats cb1)\<lparr> circuitOpens := circuitOpens (stats cb1) + 1 \<rparr> \<rparr>
         else if failures cb1 \<ge> threshold cb1 then
           cb1\<lparr> state := OPEN,
                nextAttempt := now + timeout cb1,
                stats := (stats cb1)\<lparr> circuitOpens := circuitOpens (stats cb1) + 1 \<rparr> \<rparr>
         else cb1)"

text \<open>
  The part of \<^verbatim>\<open>execute\<close> that runs before the operation: count the call, then
  either throw because the circuit is open and the cool-down has not elapsed (the result
  is then the wait time of the message, in seconds), or let the call through, as a probe
  in state HALF\_OPEN when the circuit was open.
\<close>

definition admit :: "CircuitBreaker \<Rightarrow> int \<Rightarrow> int + CircuitBreaker" where
  "admit cb now =
     (let cb1 = cb\<lparr> stats := (stats cb)\<lparr> totalCalls := totalCalls (stats cb) + 1 \<rparr> \<rparr>
      in if state cb1 = OPEN then
           if now < nextAttempt cb1
           then Inl (ceil_seconds (nextAttempt cb1 - now))
           else Inr (cb1\<lparr> state := HALF_OPEN \<rparr>)
         else Inr cb1)"

text \<open>
  \<^verbatim>\<open>execute(operation, operationName)\<close>, entered at time \<open>now\<close>; the awaited
  operation settles at time \<open>fin\<close>, which is what \<^verbatim>\<open>onSuccess\<close> and
  \<^verbatim>\<open>onFailure\<close> read. A rejected call leaves the breaker with its call counted and
  the world as it was.
\<close>

definition execute ::
  "CircuitBreaker \<Rightarrow> int \<Rightarrow> int \<Rightarrow> string \<Rightarrow> ('w, 'e, 'a) operation \<Rightarrow> 'w
     \<Rightarrow> ('e breaker_error + 'a) \<times> CircuitBreaker \<times> 'w" where
  "execute cb now fin operationName operation w =
     (case admit cb now of
        Inl waitTime \<Rightarrow>
          (Inl (CircuitOpenError operationName waitTime),
           cb\<lparr> stats := (stats cb)\<lparr> totalCalls := totalCalls (stats cb) + 1 \<rparr> \<rparr>, w)
      | Inr cb1 \<Rightarrow>
          (case operation w of
             (Inr result, w') \<Rightarrow> (Inr result, onSuccess cb1 fin, w')
           | (Inl error, w') \<Rightarrow> (Inl (OperationError error), onFailure cb1 fin, w')))"

text \<open>
  \<^verbatim>\<open>getStatus().stats.successRate\<close> as the number the code computes,
  \<^verbatim>\<open>totalSuccesses / totalCalls * 100\<close>, and 0 when there has been no call. Its
  rendering as a string with two decimals is not modelled.
\<close>

definition successRate :: "CircuitBreaker \<Rightarrow> rat" where
  "successRate cb =
     (if totalCalls (stats cb) > 0
      then of_nat (totalSuccesses (stats cb)) / of_nat (totalCalls (stats cb)) * 100
      else 0)"

text \<open>A sequence of calls of \<^verbatim>\<open>execute\<close>, each given by its two times and its operation.\<close>

fun execute_all ::
  "CircuitBreaker \<Rightarrow> string \<Rightarrow> (int \<times> int \<times> ('w, 'e, 'a) operation) list \<Rightarrow> 'w
     \<Rightarrow> ('e breaker_error + 'a) list \<times> CircuitBreaker \<times> 'w" where
  "execute_all cb operationName [] w = ([], cb, w)"
| "execute_all cb operationName ((now, fin, operation) # calls) w =
     (let (r, cb1, w1) = execute cb now fin operationName operation w;
          (rs, cb2, w2) = execute_all cb1 operationName calls w1
      in (r # rs, cb2, w2))"

fun is_circuit_open :: "'e breaker_error + 'a \<Rightarrow> bool" where
  "is_circuit_open (Inl (CircuitOpenError operationName waitTime)) = True"
| "is_circuit_open _ = False"

text \<open>The breaker after a call, and the world after it.\<close>

abbreviation breaker_after :: "'r \<times> CircuitBreaker \<times> 'w \<Rightarrow> CircuitBreaker" where
  "breaker_after r \<equiv> fst (snd r)"

abbreviation world_after :: "'r \<times> CircuitBreaker \<times> 'w \<Rightarrow> 'w" where
  "world_after r \<equiv> snd (snd r)"


section \<open>Request deduplicator (lib/request-deduplicator)\<close>

text \<open>
  The promises that \<^verbatim>\<open>dedupe\<close> builds live in the heap; here they are a list, a
  promise being its index. Each entry records the key its handlers captured and whether the
  promise is still pending or how it settled. One entry is made per invocation of
  \<^verbatim>\<open>requestFn\<close>, so the entries under a key count the invocations under it.
\<close>

datatype ('e, 'a) promise_state = Pending | Resolved 'a | Rejected 'e

record dedup_stats =
  deduped :: nat
  total :: nat

record ('k, 'e, 'a) RequestDeduplicator =
  pending :: "'k \<rightharpoonup> nat"
  dedup_stats :: dedup_stats
  promises :: "('k \<times> ('e, 'a) promise_state) list"

definition RequestDeduplicator_new :: "('k, 'e, 'a) RequestDeduplicator" where
  "RequestDeduplicator_new =
     \<lparr> pending = Map.empty, dedup_stats = \<lparr> deduped = 0, total = 0 \<rparr>, promises = [] \<rparr>"

text \<open>
  \<^verbatim>\<open>dedupe(key, requestFn)\<close> up to its return: the promise handed to the caller and
  the new state. With an entry under the key the stored promise is returned and
  \<^verbatim>\<open>requestFn\<close> is not called; without one \<^verbatim>\<open>requestFn\<close> is called, which
  makes a new pending promise, and the promise is stored under the key.
\<close>

definition dedupe ::
  "('k, 'e, 'a) RequestDeduplicator \<Rightarrow> 'k \<Rightarrow> nat \<times> ('k, 'e, 'a) RequestDeduplicator" where
  "dedupe d key =
     (let d1 = d\<lparr> dedup_stats := (dedup_stats d)\<lparr> total := total (dedup_stats d) + 1 \<rparr> \<rparr>
      in case pending d1 key of
           Some p \<Rightarrow>
             (p, d1\<lparr> dedup_stats := (dedup_stats d1)\<lparr> deduped := deduped (dedup_stats d1) + 1 \<rparr> \<rparr>)
         | None \<Rightarrow>
             (let p = length (promises d1)
              in (p, d1\<lparr> promises := promises d1 @ [(key, Pending)],
                         pending := (pending d1)(key \<mapsto> p) \<rparr>)))"

text \<open>
  The \<^verbatim>\<open>then\<close>/\<^verbatim>\<open>catch\<close> handlers of promise \<open>p\<close>, run when the request
  settles with \<open>outcome\<close>: \<^verbatim>\<open>this.pending.delete(key)\<close> for the captured key, then
  the value is returned or the error rethrown, which settles the promise the callers hold.
  A promise settles once.
\<close>

definition settle ::
  "('k, 'e, 'a) RequestDeduplicator \<Rightarrow> nat \<Rightarrow> 'e + 'a \<Rightarrow> ('k, 'e, 'a) RequestDeduplicator" where
  "settle d p outcome =
     (if p < length (promises d) \<and> snd (promises d ! p) = Pending then
        (let key = fst (promises d ! p)
         in d\<lparr> pending := (pending d)(key := None),
                promises := (promises d)[p := (key, case outcome of Inl e \<Rightarrow> Rejected e
                                                                | Inr v \<Rightarrow> Resolved v)] \<rparr>)
      else d)"

text \<open>
  The events of the deduplicator on the event loop, and a run of them: calls of
  \<^verbatim>\<open>dedupe\<close> and settlements of requests, in any order. A run returns, next to the
  final state, the promise each \<^verbatim>\<open>dedupe\<close> call of the run was handed, with its key,
  in call order; a caller's own promise settles as the promise it was handed does. The
  method \<^verbatim>\<open>clear\<close>, which nothing in the repository calls, is not an event.
\<close>

datatype ('k, 'e, 'a) dedup_event = Dedupe 'k | Settle nat "'e + 'a"

fun run_dedup ::
  "('k, 'e, 'a) RequestDeduplicator \<Rightarrow> ('k, 'e, 'a) dedup_event list
     \<Rightarrow> ('k \<times> nat) list \<times> ('k, 'e, 'a) RequestDeduplicator" where
  "run_dedup d [] = ([], d)"
| "run_dedup d (Dedupe key # evs) =
     (let (p, d1) = dedupe d key; (handed, d2) = run_dedup d1 evs
      in ((key, p) # handed, d2))"
| "run_dedup d (Settle p outcome # evs) = run_dedup (settle d p outcome) evs"

text \<open>How many times \<^verbatim>\<open>requestFn\<close> has been invoked under a key.\<close>

definition invocations :: "('k, 'e, 'a) RequestDeduplicator \<Rightarrow> 'k \<Rightarrow> nat" where
  "invocations d key = length (filter (\<lambda>e. fst e = key) (promises d))"

text \<open>The requests under a key that are in flight.\<close>

definition in_flight :: "('k, 'e, 'a) RequestDeduplicator \<Rightarrow> 'k \<Rightarrow> nat list" where
  "in_flight d key =
     filter (\<lambda>p. promises d ! p = (key, Pending)) [0 ..< length (promises d)]"

text \<open>Whether a run of events settles the promise \<open>p\<close>.\<close>

fun settles :: "nat \<Rightarrow> ('k, 'e, 'a) dedup_event list \<Rightarrow> bool" where
  "settles p [] = False"
| "settles p (Dedupe key # evs) = settles p evs"
| "settles p (Settle q outcome # evs) = (q = p \<or> settles p evs)"

text \<open>
  What ties the table to the promises in every state the events lead to: an entry of the
  table points at a pending promise made under its key, and every pending promise is the
  entry of its key.
\<close>

definition dedup_inv :: "('k, 'e, 'a) RequestDeduplicator \<Rightarrow> bool" where
  "dedup_inv d \<longleftrightarrow>
     (\<forall>k q. pending d k = Some q \<longrightarrow> q < length (promises d) \<and> promises d ! q = (k, Pending))
   \<and> (\<forall>q k. q < length (promises d) \<and> promises d ! q = (k, Pending) \<longrightarrow> pending d k = Some q)"


section \<open>Embedding queue (lib/embedding-queue.js)\<close>

record queue_item =
  item_text :: string
  item_options :: string
  item_timestamp :: int

record queue_stats =
  totalRequests :: nat
  totalBatches :: nat
  avgBatchSize :: real
  totalTexts :: nat

text \<open>
  \<open>item_options\<close> is the \<^verbatim>\<open>JSON.stringify\<close> of an item's options, which is all
  the queue reads of them. \<open>timer\<close> is the time at which the armed timeout fires, if one is
  armed. \<open>in_process\<close> holds the groups of the batch that \<^verbatim>\<open>processQueue\<close> has
  taken and is awaiting.
\<close>

record EmbeddingQueue =
  batchSize :: nat
  maxWait :: int
  queue :: "queue_item list"
  processing :: bool
  timer :: "int option"
  in_process :: "queue_item list list"
  queue_stats :: queue_stats

definition EmbeddingQueue_new :: "nat option \<Rightarrow> int option \<Rightarrow> EmbeddingQueue" where
  "EmbeddingQueue_new opt_batchSize opt_maxWait =
     \<lparr> batchSize = or_default opt_batchSize 96,
       maxWait = or_default opt_maxWait 100,
       queue = [],
       processing = False,
       timer = None,
       in_process = [],
       queue_stats = \<lparr> totalRequests = 0, totalBatches = 0, avgBatchSize = 0, totalTexts = 0 \<rparr> \<rparr>"

text \<open>
  \<^verbatim>\<open>groupByOptions\<close>: a group per distinct options string, groups in order of first
  appearance, items in queue order inside a group.
\<close>

fun group_insert :: "queue_item \<Rightarrow> (string \<times> queue_item list) list \<Rightarrow> (string \<times> queue_item list) list" where
  "group_insert x [] = [(item_options x, [x])]"
| "group_insert x ((k, g) # gs) =
     (if k = item_options x then (k, g @ [x]) # gs else (k, g) # group_insert x gs)"

definition groupByOptions :: "queue_item list \<Rightarrow> queue_item list list" where
  "groupByOptions items = map snd (fold group_insert items [])"

text \<open>
  \<^verbatim>\<open>processQueue\<close> up to its first \<^verbatim>\<open>await\<close>: nothing when a batch is being
  processed or the queue is empty, otherwise the first \<open>batchSize\<close> items leave the queue.
\<close>

definition processQueue :: "EmbeddingQueue \<Rightarrow> EmbeddingQueue" where
  "processQueue q =
     (if processing q \<or> queue q = [] then q
      else q\<lparr> processing := True,
              in_process := groupByOptions (take (batchSize q) (queue q)),
              queue := drop (batchSize q) (queue q) \<rparr>)"

definition scheduleProcessing :: "EmbeddingQueue \<Rightarrow> int \<Rightarrow> EmbeddingQueue" where
  "scheduleProcessing q now =
     (let q1 = q\<lparr> timer := None \<rparr>
      in if length (queue q1) \<ge> batchSize q1 then processQueue q1
         else q1\<lparr> timer := Some (now + maxWait q1) \<rparr>)"

definition add :: "EmbeddingQueue \<Rightarrow> int \<Rightarrow> string \<Rightarrow> string \<Rightarrow> EmbeddingQueue" where
  "add q now text options =
     (let q1 = q\<lparr> queue_stats := (queue_stats q)\<lparr> totalRequests := totalRequests (queue_stats q) + 1 \<rparr>,
                   queue := queue q @ [\<lparr> item_text = text, item_options = options,
                                         item_timestamp = now \<rparr>] \<rparr>
      in if \<not> processing q1 then scheduleProcessing q1 now else q1)"

text \<open>
  The event loop at time \<open>now\<close>: an armed timeout whose time has come fires and runs
  \<^verbatim>\<open>processQueue\<close>; otherwise nothing happens.
\<close>

definition timer_fires :: "EmbeddingQueue \<Rightarrow> int \<Rightarrow> EmbeddingQueue" where
  "timer_fires q now =
     (case timer q of
        None \<Rightarrow> q
      | Some due \<Rightarrow> if due \<le> now then processQueue (q\<lparr> timer := None \<rparr>) else q)"

text \<open>
  The rest of \<^verbatim>\<open>processQueue\<close>, once every group has been awaited; \<open>ok\<close> tells for
  each group whether \<^verbatim>\<open>processBatch\<close> resolved. The statistics are updated for each
  group that resolved, in order, and a non-empty queue is scheduled again.
\<close>

definition count_group :: "queue_stats \<Rightarrow> queue_item list \<Rightarrow> queue_stats" where
  "count_group st items =
     (let st1 = st\<lparr> totalBatches := totalBatches st + 1,
                     totalTexts := totalTexts st + length items \<rparr>
      in st1\<lparr> avgBatchSize := real (totalTexts st1) / real (totalBatches st1) \<rparr>)"

definition processQueue_done :: "EmbeddingQueue \<Rightarrow> int \<Rightarrow> (queue_item list \<Rightarrow> bool) \<Rightarrow> EmbeddingQueue" where
  "processQueue_done q now ok =
     (let q1 = q\<lparr> queue_stats := fold (\<lambda>items st. if ok items then count_group st items else st)
                                      (in_process q) (queue_stats q),
                  in_process := [],
                  processing := False \<rparr>
      in if queue q1 \<noteq> [] then scheduleProcessing q1 now else q1)"


section \<open>Adaptive cache manager (lib/adaptive-cache-manager)\<close>

text \<open>
  JavaScript numbers that take fractional values (frequencies, multipliers) are real
  numbers here. An access pattern is the object literal of \<^verbatim>\<open>trackAccess\<close>, which has
  the fields \<^verbatim>\<open>count\<close>, \<^verbatim>\<open>lastAccess\<close> and \<^verbatim>\<open>frequency\<close>;
  \<^verbatim>\<open>trackAccess\<close> also reads a field \<^verbatim>\<open>created\<close>, which is therefore part of
  the record, absent (\<open>None\<close>) in the literal.
\<close>

record AccessPattern =
  count :: nat
  lastAccess :: int
  frequency :: real
  created :: "int option"

record adaptiveConfig =
  minMultiplier :: real
  maxMultiplier :: real
  decayFactor :: real
  updateInterval :: int

record cache_stats =
  hits :: nat
  misses :: nat
  sets :: nat

text \<open>
  Of each \<^verbatim>\<open>NodeCache\<close> instance the manager's own code reads the option
  \<^verbatim>\<open>stdTTL\<close>; \<open>caches\<close> maps the name of an instance to it.
\<close>

record AdaptiveCacheManager =
  caches :: "string \<rightharpoonup> int"
  cache_stats :: cache_stats
  accessPatterns :: "string \<rightharpoonup> AccessPattern"
  adaptiveConfig :: adaptiveConfig

definition AdaptiveCacheManager_new :: AdaptiveCacheManager where
  "AdaptiveCacheManager_new =
     \<lparr> caches = [''embeddings'' \<mapsto> 3600, ''searches'' \<mapsto> 300, ''mcp'' \<mapsto> 60,
                 ''metadata'' \<mapsto> 1800],
       cache_stats = \<lparr> hits = 0, misses = 0, sets = 0 \<rparr>,
       accessPatterns = Map.empty,
       adaptiveConfig = \<lparr> minMultiplier = 0.5, maxMultiplier = 3.0, decayFactor = 0.95,
                          updateInterval = 60000 \<rparr> \<rparr>"

definition patternKey :: "string \<Rightarrow> string \<Rightarrow> string" where
  "patternKey cacheType key = cacheType @ '':'' @ key"

definition trackAccess :: "AdaptiveCacheManager \<Rightarrow> int \<Rightarrow> string \<Rightarrow> string \<Rightarrow> AdaptiveCacheManager" where
  "trackAccess m now cacheType key =
     (let pattern = (case accessPatterns m (patternKey cacheType key) of
                       Some p \<Rightarrow> p
                     | None \<Rightarrow> \<lparr> count = 0, lastAccess = now, frequency = 0, created = None \<rparr>);
          p1 = pattern\<lparr> count := count pattern + 1, lastAccess := now \<rparr>;
          hoursSinceCreation = real_of_int (now - or_default (created p1) now) / 3600000;
          p2 = p1\<lparr> frequency := real (count p1) / max hoursSinceCreation 1 \<rparr>
      in m\<lparr> accessPatterns := (accessPatterns m)(patternKey cacheType key \<mapsto> p2) \<rparr>)"

text \<open>
  \<^verbatim>\<open>get(cacheType, key)\<close>. A cached value is a value or \<^verbatim>\<open>null\<close>
  (\<open>None\<close>); \<open>found\<close> is what the \<^verbatim>\<open>NodeCache\<close> instance returned for the
  key, \<open>None\<close> for \<^verbatim>\<open>undefined\<close> and \<open>Some None\<close> for a stored
  \<^verbatim>\<open>null\<close>. The inherited method counts a hit for whatever is not
  \<^verbatim>\<open>undefined\<close> and returns it, and counts a miss and returns \<^verbatim>\<open>null\<close>
  otherwise. The override tracks the access when the result is not \<^verbatim>\<open>null\<close>.
\<close>

definition CacheManager_get ::
  "AdaptiveCacheManager \<Rightarrow> string \<Rightarrow> 'v option option \<Rightarrow> 'v option \<times> AdaptiveCacheManager" where
  "CacheManager_get m cacheType found =
     (case caches m cacheType of
        None \<Rightarrow> (None, m)
      | Some _ \<Rightarrow>
          (case found of
             Some v \<Rightarrow> (v, m\<lparr> cache_stats := (cache_stats m)\<lparr> hits := hits (cache_stats m) + 1 \<rparr> \<rparr>)
           | None \<Rightarrow> (None, m\<lparr> cache_stats := (cache_stats m)\<lparr> misses := misses (cache_stats m) + 1 \<rparr> \<rparr>)))"

definition AdaptiveCacheManager_get ::
  "AdaptiveCacheManager \<Rightarrow> int \<Rightarrow> string \<Rightarrow> string \<Rightarrow> 'v option option
     \<Rightarrow> 'v option \<times> AdaptiveCacheManager" where
  "AdaptiveCacheManager_get m now cacheType key found =
     (case CacheManager_get m cacheType found of
        (Some v, m1) \<Rightarrow> (Some v, trackAccess m1 now cacheType key)
      | (None, m1) \<Rightarrow> (None, m1))"

definition getAdaptiveTTL :: "AdaptiveCacheManager \<Rightarrow> string \<Rightarrow> string \<Rightarrow> int" where
  "getAdaptiveTTL m cacheType key =
     (let baseTTL = or_default (caches m cacheType) 300
      in case accessPatterns m (patternKey cacheType key) of
           None \<Rightarrow> baseTTL
         | Some pattern \<Rightarrow>
             if frequency pattern = 0 then baseTTL
             else
               (let frequencyScore = log 10 (frequency pattern + 1);
                    multiplier = 1 + frequencyScore * 0.5;
                    boundedMultiplier = max (minMultiplier (adaptiveConfig m))
                                            (min (maxMultiplier (adaptiveConfig m)) multiplier)
                in round (real_of_int baseTTL * boundedMultiplier)))"

text \<open>
  The time to live that \<^verbatim>\<open>set(cacheType, key, value, ttl)\<close> hands to the inherited
  \<^verbatim>\<open>set\<close>: \<^verbatim>\<open>ttl || this.getAdaptiveTTL(cacheType, key)\<close>.
\<close>

definition effectiveTTL :: "AdaptiveCacheManager \<Rightarrow> string \<Rightarrow> string \<Rightarrow> int option \<Rightarrow> int" where
  "effectiveTTL m cacheType key ttl =
     (case ttl of
        Some t \<Rightarrow> if t \<noteq> 0 then t else getAdaptiveTTL m cacheType key
      | None \<Rightarrow> getAdaptiveTTL m cacheType key)"

text \<open>\<^verbatim>\<open>updatePatterns\<close>, the sweep that the interval timer runs.\<close>

definition updatePatterns :: "AdaptiveCacheManager \<Rightarrow> int \<Rightarrow> AdaptiveCacheManager" where
  "updatePatterns m now =
     m\<lparr> accessPatterns :=
          (\<lambda>key. case accessPatterns m key of
                    None \<Rightarrow> None
                  | Some pattern \<Rightarrow>
                      if now - lastAccess pattern > 24 * 60 * 60 * 1000 then None
                      else
                        (let p1 = pattern\<lparr> frequency := frequency pattern * decayFactor (adaptiveConfig m) \<rparr>
                         in if frequency p1 < 0.01 then None else Some p1)) \<rparr>"


section \<open>Connection manager (lib/connection-manager.js)\<close>

text \<open>
  What is thrown inside \<^verbatim>\<open>executeWithRetry\<close>: the two errors the manager makes
  itself, and an error of the operation, of which the retry condition reads the status of
  the response, if the error has one. \<open>ThrownUndefined\<close> is \<^verbatim>\<open>throw lastError\<close>
  with nothing assigned.
\<close>

datatype error =
    ConnectionNotFound string
  | RateLimitExceeded int
  | RequestFailed "nat option"
  | ThrownUndefined

fun response_status :: "error \<Rightarrow> nat option" where
  "response_status (RequestFailed status) = status"
| "response_status _ = None"

definition retryCondition :: "error \<Rightarrow> bool" where
  "retryCondition err = (case response_status err of None \<Rightarrow> True | Some status \<Rightarrow> status \<ge> 500)"

record rateLimiter =
  requests :: nat
  resetTime :: int
  maxRequests :: nat

record 'c connection =
  conn_client :: 'c
  conn_rateLimiter :: "rateLimiter option"

record retryConfig =
  retries :: nat
  retryDelay :: int

record 'c ConnectionManager =
  connections :: "string \<rightharpoonup> 'c connection"
  retryConfig :: retryConfig

text \<open>
  The constructor, given the four clients it builds: the retry configuration is fixed, and
  only the Cohere connection has a rate limiter.
\<close>

definition ConnectionManager_new :: "'c \<Rightarrow> 'c \<Rightarrow> 'c \<Rightarrow> 'c \<Rightarrow> int \<Rightarrow> 'c ConnectionManager" where
  "ConnectionManager_new mcp weaviate cohere openrouter now =
     \<lparr> connections =
         [''mcp'' \<mapsto> \<lparr> conn_client = mcp, conn_rateLimiter = None \<rparr>,
          ''weaviate'' \<mapsto> \<lparr> conn_client = weaviate, conn_rateLimiter = None \<rparr>,
          ''cohere'' \<mapsto> \<lparr> conn_client = cohere,
                          conn_rateLimiter = Some \<lparr> requests = 0, resetTime = now + 60000,
                                                    maxRequests = 100 \<rparr> \<rparr>,
          ''openrouter'' \<mapsto> \<lparr> conn_client = openrouter, conn_rateLimiter = None \<rparr>],
       retryConfig = \<lparr> retries = 3, retryDelay = 1000 \<rparr> \<rparr>"

text \<open>
  \<^verbatim>\<open>checkRateLimit\<close>: the error it throws, if any, and the manager after it (the
  window is reset before the check).
\<close>

definition checkRateLimit :: "'c ConnectionManager \<Rightarrow> int \<Rightarrow> string \<Rightarrow> error option \<times> 'c ConnectionManager" where
  "checkRateLimit cm now connectionName =
     (case connections cm connectionName of
        None \<Rightarrow> (None, cm)
      | Some conn \<Rightarrow>
          (case conn_rateLimiter conn of
             None \<Rightarrow> (None, cm)
           | Some limiter \<Rightarrow>
               (let l1 = (if now > resetTime limiter
                          then limiter\<lparr> requests := 0, resetTime := now + 60000 \<rparr>
                          else limiter);
                    cm1 = cm\<lparr> connections :=
                                (connections cm)(connectionName \<mapsto> conn\<lparr> conn_rateLimiter := Some l1 \<rparr>) \<rparr>
                in if requests l1 \<ge> maxRequests l1
                   then (Some (RateLimitExceeded (ceil_seconds (resetTime l1 - now))), cm1)
                   else (None, cm1))))"

definition updateRateLimit :: "'c ConnectionManager \<Rightarrow> string \<Rightarrow> 'c ConnectionManager" where
  "updateRateLimit cm connectionName =
     (case connections cm connectionName of
        None \<Rightarrow> cm
      | Some conn \<Rightarrow>
          (case conn_rateLimiter conn of
             None \<Rightarrow> cm
           | Some limiter \<Rightarrow>
               cm\<lparr> connections :=
                     (connections cm)(connectionName \<mapsto>
                        conn\<lparr> conn_rateLimiter := Some (limiter\<lparr> requests := requests limiter + 1 \<rparr>) \<rparr>) \<rparr>))"

text \<open>
  The state that a call of \<^verbatim>\<open>executeWithRetry\<close> threads through its attempts: the
  manager, the world of the operation, and the delays it has slept so far, one per retry.
\<close>

record ('c, 'w) retry_state =
  manager :: "'c ConnectionManager"
  world :: 'w
  delays :: "int list"

text \<open>
  The body of the \<^verbatim>\<open>try\<close> block of one attempt, at time \<open>now\<close>: the rate-limit
  check for Cohere, the operation on the connection's client, the rate-limit count for
  Cohere.
\<close>

definition attempt_body ::
  "('c, 'w) retry_state \<Rightarrow> int \<Rightarrow> string \<Rightarrow> 'c \<Rightarrow> ('c \<Rightarrow> ('w, error, 'a) operation)
     \<Rightarrow> (error + 'a) \<times> ('c, 'w) retry_state" where
  "attempt_body s now connectionName client operation =
     (let (limited, cm1) = (if connectionName = ''cohere''
                            then checkRateLimit (manager s) now ''cohere''
                            else (None, manager s))
      in case limited of
           Some err \<Rightarrow> (Inl err, s\<lparr> manager := cm1 \<rparr>)
         | None \<Rightarrow>
             (case operation client (world s) of
                (Inl err, w') \<Rightarrow> (Inl err, s\<lparr> manager := cm1, world := w' \<rparr>)
              | (Inr result, w') \<Rightarrow>
                  (Inr result,
                   s\<lparr> manager := (if connectionName = ''cohere''
                                    then updateRateLimit cm1 ''cohere'' else cm1),
                      world := w' \<rparr>)))"

text \<open>
  The \<^verbatim>\<open>for\<close> loop of \<^verbatim>\<open>executeWithRetry\<close>. \<open>config\<close> is
  \<^verbatim>\<open>this.retryConfig\<close>, which nothing assigns after the constructor.
  \<open>clock attempt\<close> is the time at which the attempt numbered \<open>attempt\<close> runs; the loop
  sleeps \<^verbatim>\<open>retryDelay * Math.pow(2, attempt)\<close> before the next one.
\<close>

function retry_loop ::
  "retryConfig \<Rightarrow> ('c, 'w) retry_state \<Rightarrow> (nat \<Rightarrow> int) \<Rightarrow> string \<Rightarrow> 'c
     \<Rightarrow> ('c \<Rightarrow> ('w, error, 'a) operation) \<Rightarrow> nat \<Rightarrow> error option
     \<Rightarrow> (error + 'a) \<times> ('c, 'w) retry_state" where
  "retry_loop config s clock connectionName client operation attempt lastError =
     (if attempt \<le> retries config then
        (case attempt_body s (clock attempt) connectionName client operation of
           (Inr result, s1) \<Rightarrow> (Inr result, s1)
         | (Inl err, s1) \<Rightarrow>
             if attempt < retries config \<and> retryCondition err
             then retry_loop config
                    (s1\<lparr> delays := delays s1 @ [retryDelay config * 2 ^ attempt] \<rparr>)
                    clock connectionName client operation (attempt + 1) (Some err)
             else (Inl err, s1))
      else (Inl (case lastError of Some err \<Rightarrow> err | None \<Rightarrow> ThrownUndefined), s))"
  by pat_completeness auto
termination
  by (relation "measure (\<lambda>(config, s, clock, connectionName, client, operation, attempt, lastError).
                            retries config + 1 - attempt)") auto

definition executeWithRetry ::
  "'c ConnectionManager \<Rightarrow> (nat \<Rightarrow> int) \<Rightarrow> string \<Rightarrow> ('c \<Rightarrow> ('w, error, 'a) operation) \<Rightarrow> 'w
     \<Rightarrow> (error + 'a) \<times> ('c, 'w) retry_state" where
  "executeWithRetry cm clock connectionName operation w =
     (case connections cm connectionName of
        None \<Rightarrow> (Inl (ConnectionNotFound connectionName), \<lparr> manager = cm, world = w, delays = [] \<rparr>)
      | Some connection \<Rightarrow>
          retry_loop (retryConfig cm) \<lparr> manager = cm, world = w, delays = [] \<rparr> clock connectionName
            (conn_client connection) operation 0 None)"



section \<open>Metrics aggregator (lib/metrics-aggregator.js)\<close>

record MetricSample =
  sample_value :: real
  sample_timestamp :: int
  sample_tags :: "(string \<times> string) list"

record MetricsAggregator =
  timeSeries :: "string \<rightharpoonup> MetricSample list"

definition MetricsAggregator_new :: MetricsAggregator where
  "MetricsAggregator_new = \<lparr> timeSeries = Map.empty \<rparr>"

text \<open>The interval \<^verbatim>\<open>this.aggregationIntervals['24h']\<close>.\<close>

definition interval_24h :: int where
  "interval_24h = 86400000"

text \<open>
  \<^verbatim>\<open>getMetricKey\<close>. The tags are sorted with \<^verbatim>\<open>localeCompare\<close> on their names.
  The collation is the runtime's, so it is a parameter: \<open>before a b\<close> holds when
  \<^verbatim>\<open>a.localeCompare(b)\<close> is not positive. The sort is an insertion sort with it.
\<close>

fun insert_tag ::
  "(string \<Rightarrow> string \<Rightarrow> bool) \<Rightarrow> string \<times> string \<Rightarrow> (string \<times> string) list \<Rightarrow> (string \<times> string) list" where
  "insert_tag before t [] = [t]"
| "insert_tag before t (u # us) =
     (if before (fst t) (fst u) then t # u # us else u # insert_tag before t us)"

fun join_tags :: "string list \<Rightarrow> string" where
  "join_tags [] = []"
| "join_tags [t] = t"
| "join_tags (t # ts) = t @ '','' @ join_tags ts"

definition getMetricKey :: "(string \<Rightarrow> string \<Rightarrow> bool) \<Rightarrow> string \<Rightarrow> (string \<times> string) list \<Rightarrow> string" where
  "getMetricKey before name tags =
     (let tagString = join_tags (map (\<lambda>(k, v). k @ '':'' @ v) (foldr (insert_tag before) tags []))
      in name @ (if tagString \<noteq> [] then '','' @ tagString else []))"

definition cleanupOldData :: "MetricsAggregator \<Rightarrow> int \<Rightarrow> string \<Rightarrow> MetricsAggregator" where
  "cleanupOldData a now key =
     (let cutoff = now - interval_24h
      in case timeSeries a key of
           None \<Rightarrow> a
         | Some data \<Rightarrow>
             (let filtered = filter (\<lambda>point. sample_timestamp point > cutoff) data
              in if length filtered < length data
                 then a\<lparr> timeSeries := (timeSeries a)(key \<mapsto> filtered) \<rparr>
                 else a))"

text \<open>
  \<^verbatim>\<open>addMetric(name, value, timestamp, tags)\<close> called at time \<open>now\<close>; an absent
  \<open>timestamp\<close> defaults to \<open>now\<close>.
\<close>

definition addMetric ::
  "MetricsAggregator \<Rightarrow> (string \<Rightarrow> string \<Rightarrow> bool) \<Rightarrow> int \<Rightarrow> string \<Rightarrow> real \<Rightarrow> int option
     \<Rightarrow> (string \<times> string) list \<Rightarrow> MetricsAggregator" where
  "addMetric a before now name v timestamp tags =
     (let key = getMetricKey before name tags;
          series = (case timeSeries a key of None \<Rightarrow> [] | Some data \<Rightarrow> data);
          point = \<lparr> sample_value = v,
                    sample_timestamp = (case timestamp of None \<Rightarrow> now | Some t \<Rightarrow> t),
                    sample_tags = tags \<rparr>
      in cleanupOldData (a\<lparr> timeSeries := (timeSeries a)(key \<mapsto> series @ [point]) \<rparr>) now key)"

text \<open>
  The retention property: at time \<open>now\<close> every sample of every series is younger than
  24 hours.
\<close>

definition within_retention :: "MetricsAggregator \<Rightarrow> int \<Rightarrow> bool" where
  "within_retention a now \<longleftrightarrow>
     (\<forall>key data. timeSeries a key = Some data \<longrightarrow>
        (\<forall>point \<in> set data. sample_timestamp point > now - interval_24h))"

definition series_within_retention :: "MetricsAggregator \<Rightarrow> string \<Rightarrow> int \<Rightarrow> bool" where
  "series_within_retention a key now \<longleftrightarrow>
     (case timeSeries a key of
        None \<Rightarrow> True
      | Some data \<Rightarrow> list_all (\<lambda>point. sample_timestamp point > now - interval_24h) data)"


section \<open>Weaviate connection pool (lib/weaviate-connection-pool)\<close>

record 'c PoolSlot =
  client :: 'c
  inUse :: bool
  lastUsed :: int
  requestCount :: nat

record pool_stats =
  connectionsCreated :: nat
  pool_totalRequests :: nat
  pool_errors :: nat

record 'c WeaviateConnectionPool =
  poolSize :: nat
  pool :: "'c PoolSlot list"
  currentIndex :: nat
  pool_stats :: pool_stats

text \<open>
  \<^verbatim>\<open>initializePool\<close>: \<open>createConnection i\<close> is what the call of
  \<^verbatim>\<open>createConnection\<close> in round \<open>i\<close> gives, a client or nothing when it throws;
  a round that throws adds no slot.
\<close>

definition initializePool ::
  "'c WeaviateConnectionPool \<Rightarrow> (nat \<Rightarrow> 'c option) \<Rightarrow> int \<Rightarrow> 'c WeaviateConnectionPool" where
  "initializePool p createConnection now =
     fold (\<lambda>i p. case createConnection i of
                   None \<Rightarrow> p
                 | Some connection \<Rightarrow>
                     p\<lparr> pool := pool p @ [\<lparr> client = connection, inUse = False, lastUsed = now,
                                            requestCount = 0 \<rparr>],
                        pool_stats := (pool_stats p)
                          \<lparr> connectionsCreated := connectionsCreated (pool_stats p) + 1 \<rparr> \<rparr>)
          [0 ..< poolSize p] p"

definition WeaviateConnectionPool_new ::
  "nat option \<Rightarrow> (nat \<Rightarrow> 'c option) \<Rightarrow> int \<Rightarrow> 'c WeaviateConnectionPool" where
  "WeaviateConnectionPool_new opt_poolSize createConnection now =
     initializePool
       \<lparr> poolSize = or_default opt_poolSize 5,
         pool = [],
         currentIndex = 0,
         pool_stats = \<lparr> connectionsCreated = 0, pool_totalRequests = 0, pool_errors = 0 \<rparr> \<rparr>
       createConnection now"

text \<open>
  What \<^verbatim>\<open>getConnection\<close> returns: the client, and \<^verbatim>\<open>release\<close>, which is either
  \<^verbatim>\<open>releaseConnection(index)\<close> for the slot taken (\<open>Some index\<close>) or the function
  that does nothing (\<open>None\<close>).
\<close>

record 'c handle =
  handle_client :: 'c
  release :: "nat option"

datatype pool_error = TypeError | InvalidConnectionIndex | ConnectionFailed

text \<open>
  \<^verbatim>\<open>getConnection\<close> at time \<open>now\<close>. The search visits the slots
  \<^verbatim>\<open>(currentIndex + i) % pool.length\<close> for \<open>i\<close> from 0 and takes the first that is
  not in use. When all are in use the slot at \<^verbatim>\<open>currentIndex\<close> is returned as it
  is; reading a field of a slot that does not exist throws.
\<close>

definition getConnection ::
  "'c WeaviateConnectionPool \<Rightarrow> int \<Rightarrow> (pool_error + 'c handle) \<times> 'c WeaviateConnectionPool" where
  "getConnection p now =
     (let p1 = p\<lparr> pool_stats := (pool_stats p)
                    \<lparr> pool_totalRequests := pool_totalRequests (pool_stats p) + 1 \<rparr> \<rparr>;
          n = length (pool p1)
      in case List.find (\<lambda>i. \<not> inUse (pool p1 ! ((currentIndex p1 + i) mod n))) [0 ..< n] of
           Some i \<Rightarrow>
             (let index = (currentIndex p1 + i) mod n;
                  conn = pool p1 ! index
              in (Inr \<lparr> handle_client = client conn, release = Some index \<rparr>,
                  p1\<lparr> pool := (pool p1)[index := conn\<lparr> inUse := True, lastUsed := now,
                                                        requestCount := requestCount conn + 1 \<rparr>],
                      currentIndex := (index + 1) mod n \<rparr>))
         | None \<Rightarrow>
             if currentIndex p1 < n then
               (let conn = pool p1 ! currentIndex p1
                in (Inr \<lparr> handle_client = client conn, release = None \<rparr>,
                    p1\<lparr> pool := (pool p1)[currentIndex p1 :=
                                            conn\<lparr> requestCount := requestCount conn + 1 \<rparr>],
                        currentIndex := (currentIndex p1 + 1) mod n \<rparr>))
             else (Inl TypeError, p1))"

definition releaseConnection :: "'c WeaviateConnectionPool \<Rightarrow> nat \<Rightarrow> 'c WeaviateConnectionPool" where
  "releaseConnection p index =
     (if index < length (pool p)
      then p\<lparr> pool := (pool p)[index := (pool p ! index)\<lparr> inUse := False \<rparr>] \<rparr>
      else p)"

text \<open>Calling the \<^verbatim>\<open>release\<close> of a handle.\<close>

definition call_release :: "'c WeaviateConnectionPool \<Rightarrow> 'c handle \<Rightarrow> 'c WeaviateConnectionPool" where
  "call_release p h = (case release h of Some index \<Rightarrow> releaseConnection p index | None \<Rightarrow> p)"


text \<open>An acquisition followed at once by the call of the handle's \<^verbatim>\<open>release\<close>.\<close>

definition acquire_release ::
  "'c WeaviateConnectionPool \<Rightarrow> int \<Rightarrow> (pool_error + 'c handle) \<times> 'c WeaviateConnectionPool" where
  "acquire_release p now =
     (case getConnection p now of
        (Inr h, p1) \<Rightarrow> (Inr h, call_release p1 h)
      | (Inl err, p1) \<Rightarrow> (Inl err, p1))"


text \<open>
  \<^verbatim>\<open>refreshConnection(index)\<close> at time \<open>now\<close>; \<open>made\<close> is what its call of
  \<^verbatim>\<open>createConnection\<close> gives, a client or nothing when it throws. The index is a
  natural number here, so of the range check only the upper bound remains.
\<close>

definition refreshConnection ::
  "'c WeaviateConnectionPool \<Rightarrow> nat \<Rightarrow> 'c option \<Rightarrow> int \<Rightarrow> pool_error + 'c WeaviateConnectionPool" where
  "refreshConnection p index made now =
     (if index \<ge> length (pool p) then Inl InvalidConnectionIndex
      else case made of
             None \<Rightarrow> Inl ConnectionFailed
           | Some newClient \<Rightarrow>
               Inr (p\<lparr> pool := (pool p)[index := \<lparr> client = newClient, inUse = False,
                                                     lastUsed = now, requestCount = 0 \<rparr>] \<rparr>))"

text \<open>\<^verbatim>\<open>close()\<close>.\<close>

definition pool_close :: "'c WeaviateConnectionPool \<Rightarrow> 'c WeaviateConnectionPool" where
  "pool_close p = p\<lparr> pool := [] \<rparr>"

text \<open>
  Everything that changes a pool after its construction: an acquisition, the release of a
  slot, the count of a failed operation in \<^verbatim>\<open>execute\<close>, the refresh of a slot, and
  \<^verbatim>\<open>close\<close>. The states of a pool are those a run of such events leads to from the
  constructor.
\<close>

datatype 'c pool_event =
    Acquire int
  | Release nat
  | OperationFailed
  | Refresh nat "'c option" int
  | Close

fun pool_step :: "'c WeaviateConnectionPool \<Rightarrow> 'c pool_event \<Rightarrow> 'c WeaviateConnectionPool" where
  "pool_step p (Acquire now) = snd (getConnection p now)"
| "pool_step p (Release index) = releaseConnection p index"
| "pool_step p OperationFailed =
     p\<lparr> pool_stats := (pool_stats p)\<lparr> pool_errors := pool_errors (pool_stats p) + 1 \<rparr> \<rparr>"
| "pool_step p (Refresh index made now) =
     (case refreshConnection p index made now of Inr p1 \<Rightarrow> p1 | Inl err \<Rightarrow> p)"
| "pool_step p Close = pool_close p"

definition run_pool :: "'c WeaviateConnectionPool \<Rightarrow> 'c pool_event list \<Rightarrow> 'c WeaviateConnectionPool" where
  "run_pool p evs = fold (\<lambda>ev q. pool_step q ev) evs p"

text \<open>The cursor points at a slot whenever the pool has one.\<close>

definition cursor_ok :: "'c WeaviateConnectionPool \<Rightarrow> bool" where
  "cursor_ok p \<longleftrightarrow> pool p = [] \<or> currentIndex p < length (pool p)"


section \<open>Circuit breaker: properties\<close>

lemma execute_counts_call:
  "totalCalls (stats (breaker_after (execute cb now fin nm operation w))) = totalCalls (stats cb) + 1"
  by (auto simp add: execute_def admit_def onSuccess_def onFailure_def Let_def
           split: sum.splits prod.splits option.splits)

lemma execute_rejected:
  "state cb = OPEN \<Longrightarrow> now < nextAttempt cb \<Longrightarrow>
   execute cb now fin nm operation w =
     (Inl (CircuitOpenError nm (ceil_seconds (nextAttempt cb - now))),
      cb\<lparr> stats := (stats cb)\<lparr> totalCalls := totalCalls (stats cb) + 1 \<rparr> \<rparr>, w)"
  by (simp add: execute_def admit_def)







lemma rate_drops:
  fixes s c :: nat
  assumes "0 < s" "0 < c"
  shows "(of_nat s :: rat) / (of_nat c + 1) * 100 < of_nat s / of_nat c * 100"
proof -
  have "(of_nat s * 100 :: rat) / (of_nat c + 1) < (of_nat s * 100) / of_nat c"
    using assms by (intro divide_strict_left_mono) simp_all
  then show ?thesis by simp
qed

text \<open>
  Claim C10. Every call of \<^verbatim>\<open>execute\<close> adds one to \<^verbatim>\<open>totalCalls\<close>. A call
  that is rejected because the circuit is open invokes no operation (the world is
  unchanged) and leaves \<^verbatim>\<open>totalSuccesses\<close> as it was, so the success rate after it
  is the old number of successes over one call more; with at least one success so far it is
  strictly lower than before.
\<close>

theorem rejected_calls_count_in_success_rate:
  assumes opn: "state cb = OPEN" and early: "now < nextAttempt cb"
      and succ: "0 < totalSuccesses (stats cb)" and calls: "0 < totalCalls (stats cb)"
  shows "(\<forall>cb0 now0. totalCalls (stats (breaker_after (execute cb0 now0 fin nm operation w)))
                       = totalCalls (stats cb0) + 1)
       \<and> is_circuit_open (fst (execute cb now fin nm operation w))
       \<and> world_after (execute cb now fin nm operation w) = w
       \<and> totalSuccesses (stats (breaker_after (execute cb now fin nm operation w))) = totalSuccesses (stats cb)
       \<and> successRate (breaker_after (execute cb now fin nm operation w))
            = of_nat (totalSuccesses (stats cb)) / (of_nat (totalCalls (stats cb)) + 1) * 100
       \<and> successRate (breaker_after (execute cb now fin nm operation w)) < successRate cb"
proof -
  note rej = execute_rejected [OF opn early, of fin nm operation w]
  have rate: "successRate (breaker_after (execute cb now fin nm operation w))
            = of_nat (totalSuccesses (stats cb)) / (of_nat (totalCalls (stats cb)) + 1) * 100"
    by (simp add: rej successRate_def)
  have less: "successRate (breaker_after (execute cb now fin nm operation w)) < successRate cb"
    unfolding rate using rate_drops [OF succ calls] calls by (simp add: successRate_def)
  show ?thesis
    using rate less by (simp add: execute_counts_call) (simp add: rej)
qed

theorem rejected_calls_count_in_success_rate_witness:
  "(let cb = breaker_after
               (execute_all
                  (CircuitBreaker_new
                     \<lparr> opt_threshold = Some 3, opt_timeout = Some 1000, opt_resetTimeout = None \<rparr> 0)
                  ''probe''
                  [(0, 5, \<lambda>n::nat. (Inr True :: string + bool, Suc n)),
                   (5, 10, \<lambda>n. (Inl ''down'', Suc n)),
                   (10, 20, \<lambda>n. (Inl ''down'', Suc n)),
                   (20, 30, \<lambda>n. (Inl ''down'', Suc n))] 0);
        r = execute cb 500 501 ''probe'' (\<lambda>n::nat. (Inr True :: string + bool, Suc n)) 4
    in state cb = OPEN \<and> 500 < nextAttempt cb \<and> 0 < totalSuccesses (stats cb) \<and> 0 < totalCalls (stats cb)
     \<and> is_circuit_open (fst r) \<and> world_after r = 4
     \<and> totalCalls (stats (breaker_after r)) = 5 \<and> totalSuccesses (stats (breaker_after r)) = 1
     \<and> successRate cb = 25 \<and> successRate (breaker_after r) = 20
     \<and> successRate (breaker_after r) < successRate cb)"
  using rejected_calls_count_in_success_rate
          [of "breaker_after
                 (execute_all
                    (CircuitBreaker_new
                       \<lparr> opt_threshold = Some 3, opt_timeout = Some 1000, opt_resetTimeout = None \<rparr> 0)
                    ''probe''
                    [(0, 5, \<lambda>n::nat. (Inr True :: string + bool, Suc n)),
                     (5, 10, \<lambda>n. (Inl ''down'', Suc n)),
                     (10, 20, \<lambda>n. (Inl ''down'', Suc n)),
                     (20, 30, \<lambda>n. (Inl ''down'', Suc n))] 0)"
              500 501 "''probe''" "\<lambda>n::nat. (Inr True :: string + bool, Suc n)" 4]
  by (simp add: Let_def successRate_def execute_def admit_def onSuccess_def onFailure_def
                CircuitBreaker_new_def or_default_def)

section \<open>Connection pool: properties\<close>

lemma find_all_in_use:
  assumes "list_all inUse slots" "slots \<noteq> []"
  shows "List.find (\<lambda>i. \<not> inUse (slots ! ((c + i) mod length slots))) [0 ..< length slots] = None"
proof -
  have "inUse (slots ! ((c + i) mod length slots))" for i
    using assms by (simp add: list_all_length)
  then show ?thesis by (simp add: find_None_iff)
qed

lemma fold_create_cursor:
  "currentIndex
     (fold (\<lambda>i p. case createConnection i of
                     None \<Rightarrow> p
                   | Some connection \<Rightarrow>
                       p\<lparr> pool := pool p @ [\<lparr> client = connection, inUse = False, lastUsed = now,
                                              requestCount = 0 \<rparr>],
                          pool_stats := (pool_stats p)
                            \<lparr> connectionsCreated := connectionsCreated (pool_stats p) + 1 \<rparr> \<rparr>)
        xs p) = currentIndex p"
  by (induction xs arbitrary: p) (simp_all split: option.splits)

lemma cursor_ok_new: "cursor_ok (WeaviateConnectionPool_new opt_poolSize createConnection now)"
proof -
  have "currentIndex (WeaviateConnectionPool_new opt_poolSize createConnection now) = 0"
    by (simp add: WeaviateConnectionPool_new_def initializePool_def fold_create_cursor)
  then show ?thesis
    by (cases "pool (WeaviateConnectionPool_new opt_poolSize createConnection now)")
       (simp_all add: cursor_ok_def)
qed

lemma cursor_ok_getConnection:
  assumes "cursor_ok p"
  shows "cursor_ok (snd (getConnection p now))"
proof (cases "pool p = []")
  case True
  then show ?thesis by (simp add: getConnection_def cursor_ok_def Let_def)
next
  case False
  with assms have "currentIndex p < length (pool p)" by (simp add: cursor_ok_def)
  with False show ?thesis
    by (auto simp add: getConnection_def cursor_ok_def Let_def split: option.splits)
qed

lemma cursor_ok_step:
  assumes "cursor_ok p"
  shows "cursor_ok (pool_step p ev)"
proof (cases ev)
  case (Acquire now)
  with assms show ?thesis by (simp add: cursor_ok_getConnection)
next
  case (Release index)
  with assms show ?thesis by (simp add: releaseConnection_def cursor_ok_def)
next
  case OperationFailed
  with assms show ?thesis by (simp add: cursor_ok_def)
next
  case (Refresh index made now)
  with assms show ?thesis
    by (simp add: refreshConnection_def cursor_ok_def split: option.splits)
next
  case Close
  then show ?thesis by (simp add: pool_close_def cursor_ok_def)
qed

lemma cursor_ok_run:
  "cursor_ok p \<Longrightarrow> cursor_ok (run_pool p evs)"
  unfolding run_pool_def
  by (induction evs arbitrary: p) (simp_all add: cursor_ok_step)

text \<open>
  Claim C9, as the code has it. A pool of size 2 whose two connections were created is
  used sequentially, each handle released before the next acquisition: the first
  acquisition returns slot 0, the second slot 1 and the third slot 0 again. And in every
  state \<open>p\<close> that a pool reaches from its constructor, if the pool has at least one slot
  and all its slots are in use, \<^verbatim>\<open>getConnection\<close> returns at once the client of the
  slot at the cursor with a \<^verbatim>\<open>release\<close> that does nothing, counts the request on
  that slot and moves the cursor to the next slot, wrapping around; the cursor points at a
  slot of the pool.
\<close>

theorem pool_round_robin:
  assumes first: "createConnection 0 = Some c0"
      and second: "createConnection 1 = Some c1"
      and reached: "p = run_pool (WeaviateConnectionPool_new opt_poolSize made t) evs"
      and slots: "pool p \<noteq> []"
      and busy: "list_all inUse (pool p)"
  shows "(let p0 = WeaviateConnectionPool_new (Some 2) createConnection t0;
              (r1, p1) = acquire_release p0 t1;
              (r2, p2) = acquire_release p1 t2;
              (r3, p3) = getConnection p2 t3
          in r1 = Inr \<lparr> handle_client = c0, release = Some 0 \<rparr>
           \<and> r2 = Inr \<lparr> handle_client = c1, release = Some 1 \<rparr>
           \<and> r3 = Inr \<lparr> handle_client = c0, release = Some 0 \<rparr>)
       \<and> getConnection p now =
           (Inr \<lparr> handle_client = client (pool p ! currentIndex p), release = None \<rparr>,
            p\<lparr> pool_stats := (pool_stats p)\<lparr> pool_totalRequests := pool_totalRequests (pool_stats p) + 1 \<rparr>,
               pool := (pool p)[currentIndex p :=
                          (pool p ! currentIndex p)\<lparr> requestCount := requestCount (pool p ! currentIndex p) + 1 \<rparr>],
               currentIndex := (currentIndex p + 1) mod length (pool p) \<rparr>)
       \<and> currentIndex p < length (pool p)"
proof -
  have upt2: "[0 ..< 2] = [0, Suc 0]" by (simp add: upt_rec)
  have seq: "(let p0 = WeaviateConnectionPool_new (Some 2) createConnection t0;
              (r1, p1) = acquire_release p0 t1;
              (r2, p2) = acquire_release p1 t2;
              (r3, p3) = getConnection p2 t3
          in r1 = Inr \<lparr> handle_client = c0, release = Some 0 \<rparr>
           \<and> r2 = Inr \<lparr> handle_client = c1, release = Some 1 \<rparr>
           \<and> r3 = Inr \<lparr> handle_client = c0, release = Some 0 \<rparr>)"
    using first second
    by (simp add: WeaviateConnectionPool_new_def initializePool_def or_default_def upt2
                  acquire_release_def getConnection_def call_release_def releaseConnection_def Let_def)
  have "cursor_ok p"
    unfolding reached by (rule cursor_ok_run [OF cursor_ok_new])
  with slots have cursor: "currentIndex p < length (pool p)" by (simp add: cursor_ok_def)
  have sat: "getConnection p now =
           (Inr \<lparr> handle_client = client (pool p ! currentIndex p), release = None \<rparr>,
            p\<lparr> pool_stats := (pool_stats p)\<lparr> pool_totalRequests := pool_totalRequests (pool_stats p) + 1 \<rparr>,
               pool := (pool p)[currentIndex p :=
                          (pool p ! currentIndex p)\<lparr> requestCount := requestCount (pool p ! currentIndex p) + 1 \<rparr>],
               currentIndex := (currentIndex p + 1) mod length (pool p) \<rparr>)"
    using cursor find_all_in_use [OF busy slots, of "currentIndex p"]
    by (simp add: getConnection_def Let_def)
  from seq sat cursor show ?thesis by simp
qed

theorem pool_round_robin_witness:
  "(let p = run_pool (WeaviateConnectionPool_new (Some 2) (\<lambda>i. Some (100 + i)) 0) [Acquire 1, Acquire 2];
        (r3, p3) = getConnection p 3;
        (r4, p4) = getConnection p3 4
    in pool p \<noteq> [] \<and> list_all inUse (pool p)
     \<and> r3 = Inr \<lparr> handle_client = 100, release = None \<rparr>
     \<and> r4 = Inr \<lparr> handle_client = 101, release = None \<rparr>
     \<and> map requestCount (pool p4) = [2, 2])
   \<and> (let p0 = WeaviateConnectionPool_new (Some 2) (\<lambda>i. Some (100 + i)) 0;
              (r1, p1) = acquire_release p0 1;
              (r2, p2) = acquire_release p1 2;
              (r3, p3) = getConnection p2 3
          in r1 = Inr \<lparr> handle_client = 100, release = Some 0 \<rparr>
           \<and> r2 = Inr \<lparr> handle_client = 101, release = Some 1 \<rparr>
           \<and> r3 = Inr \<lparr> handle_client = 100, release = Some 0 \<rparr>)"
proof -
  have upt2: "[0 ..< 2] = [0, Suc 0]" by (simp add: upt_rec)
  let ?p = "run_pool (WeaviateConnectionPool_new (Some 2) (\<lambda>i. Some (100 + i)) 0) [Acquire 1, Acquire 2]
              :: nat WeaviateConnectionPool"
  have s: "pool ?p \<noteq> []"
    by (simp add: run_pool_def WeaviateConnectionPool_new_def initializePool_def or_default_def upt2
                  getConnection_def Let_def)
  have b: "list_all inUse (pool ?p)"
    by (simp add: run_pool_def WeaviateConnectionPool_new_def initializePool_def or_default_def upt2
                  getConnection_def Let_def)
  from pool_round_robin [where createConnection = "\<lambda>i. Some (100 + i)" and ?c0.0 = 100 and ?c1.0 = 101
                           and p = ?p and opt_poolSize = "Some 2" and made = "\<lambda>i. Some (100 + i)"
                           and t = 0 and evs = "[Acquire 1, Acquire 2]"
                           and ?t0.0 = 0 and ?t1.0 = 1 and ?t2.0 = 2 and ?t3.0 = 3 and now = 3,
                         OF _ _ refl s b]
  show ?thesis
    by (simp add: run_pool_def WeaviateConnectionPool_new_def initializePool_def or_default_def upt2
                  acquire_release_def getConnection_def call_release_def releaseConnection_def Let_def)
qed

text \<open>
  Claim C9 as stated fails for the pool without slots: when every call of
  \<^verbatim>\<open>createConnection\<close> in the constructor throws, the pool is empty, every slot of
  it is in use (there is none), and \<^verbatim>\<open>getConnection\<close> throws a
  \<^verbatim>\<open>TypeError\<close> instead of returning a handle.
\<close>

theorem empty_pool_throws:
  "(let p = WeaviateConnectionPool_new (Some 2) (\<lambda>i. None :: nat option) 0
    in pool p = [] \<and> list_all inUse (pool p) \<and> fst (getConnection p 1) = Inl TypeError)"
proof -
  have upt2: "[0 ..< 2] = [0, Suc 0]" by (simp add: upt_rec)
  show ?thesis
    by (simp add: WeaviateConnectionPool_new_def initializePool_def or_default_def upt2
                  getConnection_def Let_def)
qed


section \<open>Metrics aggregator: properties\<close>

lemma filter_keeps_all:
  "length (filter P xs) = length xs \<Longrightarrow> filter P xs = xs"
proof (induction xs)
  case Nil
  then show ?case by simp
next
  case (Cons x xs)
  have le: "length (filter P xs) \<le> length xs" by (rule length_filter_le)
  show ?case
  proof (cases "P x")
    case True
    with Cons show ?thesis by simp
  next
    case False
    with Cons.prems le show ?thesis by simp
  qed
qed

lemma cleanupOldData_series:
  "timeSeries (cleanupOldData a now key) key
     = map_option (filter (\<lambda>point. sample_timestamp point > now - interval_24h)) (timeSeries a key)"
proof (cases "timeSeries a key")
  case None
  then show ?thesis by (simp add: cleanupOldData_def)
next
  case (Some data)
  let ?kept = "filter (\<lambda>point. sample_timestamp point > now - interval_24h) data"
  show ?thesis
  proof (cases "length ?kept < length data")
    case True
    with Some show ?thesis by (simp add: cleanupOldData_def Let_def)
  next
    case False
    then have "length ?kept = length data"
      using length_filter_le [of "\<lambda>point. sample_timestamp point > now - interval_24h" data] by simp
    then have "?kept = data" by (rule filter_keeps_all)
    with Some False show ?thesis by (simp add: cleanupOldData_def Let_def)
  qed
qed

lemma cleanupOldData_others:
  "key' \<noteq> key \<Longrightarrow> timeSeries (cleanupOldData a now key) key' = timeSeries a key'"
  by (simp add: cleanupOldData_def Let_def split: option.splits)

text \<open>
  Claim C8, as the code has it. Samples are dropped in \<^verbatim>\<open>addMetric\<close> only, and only
  from the series the call writes to: after \<^verbatim>\<open>addMetric\<close> at time \<open>now\<close> every
  sample of that series is younger than 24 hours, and every other series is exactly what it
  was before the call.
\<close>

theorem addMetric_cleans_its_own_series:
  "series_within_retention (addMetric a before now name v timestamp tags) (getMetricKey before name tags) now
   \<and> (\<forall>key. key \<noteq> getMetricKey before name tags \<longrightarrow>
         timeSeries (addMetric a before now name v timestamp tags) key = timeSeries a key)"
  by (simp add: addMetric_def Let_def series_within_retention_def cleanupOldData_series
                cleanupOldData_others list_all_iff)

theorem addMetric_cleans_its_own_series_witness:
  "(let a1 = addMetric MetricsAggregator_new (\<lambda>a b. True) 0 ''latency'' 12 None [];
        a2 = addMetric a1 (\<lambda>a b. True) 90000000 ''errors'' 1 None [];
        a3 = addMetric a2 (\<lambda>a b. True) 90000001 ''latency'' 15 None []
    in series_within_retention a2 ''errors'' 90000000
     \<and> map_option (map sample_timestamp) (timeSeries a2 ''latency'') = Some [0]
     \<and> timeSeries a2 ''latency'' = timeSeries a1 ''latency''
     \<and> map_option (map sample_timestamp) (timeSeries a3 ''latency'') = Some [90000001])"
  using addMetric_cleans_its_own_series
          [of "addMetric MetricsAggregator_new (\<lambda>a b. True) 0 ''latency'' 12 None []"
              "\<lambda>a b. True" 90000000 "''errors''" 1 None "[]"]
  by (simp add: Let_def addMetric_def getMetricKey_def cleanupOldData_def MetricsAggregator_new_def
                interval_24h_def series_within_retention_def)

text \<open>
  Claim C8 as stated fails: nothing sweeps a series that receives no new sample. A sample
  recorded at time 0 in one series is still stored at time 90000000 (25 hours later), after
  a sample has been added to another series.
\<close>

theorem retention_broken_for_idle_series:
  "\<not> within_retention
        (addMetric (addMetric MetricsAggregator_new (\<lambda>a b. True) 0 ''latency'' 12 None [])
           (\<lambda>a b. True) 90000000 ''errors'' 1 None [])
        90000000"
proof
  assume "within_retention
        (addMetric (addMetric MetricsAggregator_new (\<lambda>a b. True) 0 ''latency'' 12 None [])
           (\<lambda>a b. True) 90000000 ''errors'' 1 None [])
        90000000"
  then have "\<forall>point \<in> set [\<lparr> sample_value = 12, sample_timestamp = 0, sample_tags = [] \<rparr>].
               sample_timestamp point > 90000000 - interval_24h"
    unfolding within_retention_def
    by (elim allE [where x = "''latency''"] allE [where x = "[\<lparr> sample_value = 12, sample_timestamp = 0, sample_tags = [] \<rparr>]"])
       (simp add: Let_def addMetric_def getMetricKey_def cleanupOldData_def MetricsAggregator_new_def
                interval_24h_def)
  then show False by (simp add: interval_24h_def)
qed


section \<open>Embedding queue: properties\<close>

text \<open>
  Claim C3, evaluated on the code with \<^verbatim>\<open>batchSize = 3\<close> and
  \<^verbatim>\<open>maxWait = 50\<close>. An item is added at time 0, which arms the timer for time 50;
  a second item added at time 40 clears that timer and arms a new one for time 90. At
  time 50 nothing is flushed; the first item leaves the queue at time 90, at the age of 90.
\<close>

theorem later_add_postpones_flush:
  "(let q0 = EmbeddingQueue_new (Some 3) (Some 50);
        q1 = add q0 0 ''first'' ''{}'';
        q2 = add q1 40 ''second'' ''{}''
    in timer q1 = Some 50
     \<and> timer q2 = Some 90
     \<and> map item_timestamp (queue q2) = [0, 40]
     \<and> timer_fires q2 50 = q2
     \<and> queue (timer_fires q2 90) = []
     \<and> map (map item_timestamp) (in_process (timer_fires q2 90)) = [[0, 40]])"
  by (simp add: Let_def EmbeddingQueue_new_def or_default_def add_def scheduleProcessing_def
                processQueue_def timer_fires_def groupByOptions_def)


section \<open>Adaptive cache manager: properties\<close>

lemma get_hit:
  "caches m cacheType = Some b \<Longrightarrow>
   snd (AdaptiveCacheManager_get m now cacheType key (Some (Some v)))
     = trackAccess (m\<lparr> cache_stats := (cache_stats m)\<lparr> hits := hits (cache_stats m) + 1 \<rparr> \<rparr>) now cacheType key"
  by (simp add: AdaptiveCacheManager_get_def CacheManager_get_def)

lemma trackAccess_caches: "caches (trackAccess m now cacheType key) = caches m"
  by (simp add: trackAccess_def Let_def)

text \<open>
  Claim C7, evaluated on the code. A key is hit five times, half an hour apart, the last
  hit two hours after the first. Nothing ever writes \<^verbatim>\<open>created\<close>, so the hours
  since creation are 0 at every hit and the frequency is the count, 5, not the count
  divided by 2. A sweep between hits multiplies the stored frequency by 0.95.
\<close>

theorem frequency_is_count:
  "(let m1 = snd (AdaptiveCacheManager_get AdaptiveCacheManager_new 0 ''searches'' ''k'' (Some (Some (1 :: nat))));
        m2 = snd (AdaptiveCacheManager_get m1 1800000 ''searches'' ''k'' (Some (Some (1 :: nat))));
        m3 = snd (AdaptiveCacheManager_get m2 3600000 ''searches'' ''k'' (Some (Some (1 :: nat))));
        m4 = snd (AdaptiveCacheManager_get m3 5400000 ''searches'' ''k'' (Some (Some (1 :: nat))));
        m5 = snd (AdaptiveCacheManager_get m4 7200000 ''searches'' ''k'' (Some (Some (1 :: nat))))
    in map_option count (accessPatterns m5 ''searches:k'') = Some 5
     \<and> map_option lastAccess (accessPatterns m5 ''searches:k'') = Some 7200000
     \<and> map_option frequency (accessPatterns m5 ''searches:k'') = Some 5
     \<and> map_option created (accessPatterns m5 ''searches:k'') = Some None
     \<and> map_option frequency (accessPatterns (updatePatterns m1 60000) ''searches:k'') = Some (19 / 20))"
proof -
  have c: "caches AdaptiveCacheManager_new ''searches'' = Some 300"
    by (simp add: AdaptiveCacheManager_new_def)
  show ?thesis
    by (simp add: Let_def get_hit [where b = 300] trackAccess_caches c)
       (simp add: AdaptiveCacheManager_new_def trackAccess_def updatePatterns_def
                  patternKey_def or_default_def Let_def)
qed

lemma log10_2_lower: "3 / 10 < log 10 (2 :: real)"
proof -
  have "(10 :: real) powr (3 / 10) < 2"
  proof (rule ccontr)
    assume "\<not> (10 :: real) powr (3 / 10) < 2"
    then have "(2 :: real) \<le> 10 powr (3 / 10)" by simp
    then have "(2 :: real) powr 10 \<le> (10 powr (3 / 10)) powr 10"
      by (intro powr_mono2) simp_all
    also have "\<dots> = 10 powr 3" by (simp add: powr_powr)
    finally show False by simp
  qed
  moreover have "(3 / 10 < log 10 (2 :: real)) = (10 powr (3 / 10) < (2 :: real))"
    by (rule less_log_iff) simp_all
  ultimately show ?thesis by blast
qed

lemma log10_2_upper: "log 10 (2 :: real) < 91 / 300"
proof -
  have "(2 :: real) < 10 powr (91 / 300)"
  proof (rule ccontr)
    assume "\<not> (2 :: real) < 10 powr (91 / 300)"
    then have "(10 :: real) powr (91 / 300) \<le> 2" by simp
    then have "((10 :: real) powr (91 / 300)) powr 300 \<le> 2 powr 300"
      by (intro powr_mono2) simp_all
    moreover have "((10 :: real) powr (91 / 300)) powr 300 = 10 powr 91" by (simp add: powr_powr)
    ultimately have "(10 :: real) ^ 91 \<le> 2 ^ 300" by (simp add: powr_realpow)
    then show False by simp
  qed
  moreover have "(log 10 (2 :: real) < 91 / 300) = ((2 :: real) < 10 powr (91 / 300))"
    by (rule log_less_iff) simp_all
  ultimately show ?thesis by blast
qed


lemma round_lower: "real_of_int n \<le> x \<Longrightarrow> n \<le> round x"
  using round_mono [of "real_of_int n" x] by simp

lemma round_upper: "x \<le> real_of_int n \<Longrightarrow> round x \<le> n"
  using round_mono [of x "real_of_int n"] by simp

lemma base_ttl_cases:
  "or_default (caches AdaptiveCacheManager_new cacheType) 300 \<in> {3600, 300, 60, 1800}"
  by (simp add: AdaptiveCacheManager_new_def or_default_def)

lemma getAdaptiveTTL_formula:
  assumes "caches m = caches AdaptiveCacheManager_new"
      and "adaptiveConfig m = adaptiveConfig AdaptiveCacheManager_new"
  shows "getAdaptiveTTL m cacheType key =
     round (real_of_int (or_default (caches m cacheType) 300)
            * max 0.5 (min 3 (1 + log 10 ((case accessPatterns m (patternKey cacheType key) of
                                             None \<Rightarrow> 0 | Some pattern \<Rightarrow> frequency pattern) + 1) * 0.5)))"
  using assms
  by (simp add: getAdaptiveTTL_def Let_def AdaptiveCacheManager_new_def split: option.splits)

lemma ttl_bounds:
  assumes "b \<in> {3600, 300, 60, 1800 :: int}"
  shows "real_of_int b * 0.5 \<le> real_of_int (round (real_of_int b * max 0.5 (min 3 x)))
       \<and> real_of_int (round (real_of_int b * max 0.5 (min 3 x))) \<le> real_of_int b * 3"
proof -
  obtain h where h: "b = 2 * h" "0 \<le> h" using assms by auto
  let ?c = "max 0.5 (min 3 x) :: real"
  have c: "0.5 \<le> ?c" "?c \<le> 3" by simp_all
  have "real_of_int h \<le> real_of_int b * ?c"
    using h c(1) mult_left_mono [of "0.5" ?c "real_of_int b"] by simp
  then have lo: "h \<le> round (real_of_int b * ?c)" by (rule round_lower)
  have "real_of_int b * ?c \<le> real_of_int (3 * b)"
    using h c(2) mult_left_mono [of ?c 3 "real_of_int b"] by simp
  then have hi: "round (real_of_int b * ?c) \<le> 3 * b" by (rule round_upper)
  from lo hi h show ?thesis by simp
qed

text \<open>
  Claim C4, as the code has it. For a manager as the constructor builds it, with any table
  of access patterns, the time to live of a \<^verbatim>\<open>set\<close> without explicit TTL is the base
  TTL of the namespace times the clamped multiplier, rounded to the nearest integer, where
  a key without a pattern has frequency 0. It lies between 0.5 and 3 times the base TTL
  (between 150 and 900 for the namespace with base TTL 300), and it is the base TTL for a
  key without a recorded pattern.
\<close>

theorem adaptive_ttl_rounded_and_bounded:
  "(let m = AdaptiveCacheManager_new\<lparr> accessPatterns := pats \<rparr>;
        base = or_default (caches m cacheType) 300;
        f = (case pats (patternKey cacheType key) of None \<Rightarrow> 0 | Some pattern \<Rightarrow> frequency pattern);
        ttl = effectiveTTL m cacheType key None
    in ttl = round (real_of_int base * max 0.5 (min 3 (1 + log 10 (f + 1) * 0.5)))
     \<and> real_of_int base * 0.5 \<le> real_of_int ttl \<and> real_of_int ttl \<le> real_of_int base * 3
     \<and> (cacheType = ''searches'' \<longrightarrow> 150 \<le> ttl \<and> ttl \<le> 900)
     \<and> (pats (patternKey cacheType key) = None \<longrightarrow> ttl = base))"
proof -
  let ?m = "AdaptiveCacheManager_new\<lparr> accessPatterns := pats \<rparr>"
  let ?base = "or_default (caches ?m cacheType) 300"
  let ?f = "case pats (patternKey cacheType key) of None \<Rightarrow> 0 | Some pattern \<Rightarrow> frequency pattern"
  let ?x = "1 + log 10 (?f + 1) * 0.5"
  let ?ttl = "effectiveTTL ?m cacheType key None"
  have formula: "?ttl = round (real_of_int ?base * max 0.5 (min 3 ?x))"
    using getAdaptiveTTL_formula [of ?m cacheType key] by (simp add: effectiveTTL_def)
  have base: "?base \<in> {3600, 300, 60, 1800}"
    using base_ttl_cases [of cacheType] by simp
  have bounds: "real_of_int ?base * 0.5 \<le> real_of_int ?ttl \<and> real_of_int ?ttl \<le> real_of_int ?base * 3"
    unfolding formula by (rule ttl_bounds [OF base])
  have searches: "cacheType = ''searches'' \<longrightarrow> 150 \<le> ?ttl \<and> ?ttl \<le> 900"
  proof
    assume "cacheType = ''searches''"
    then have "?base = 300" by (simp add: AdaptiveCacheManager_new_def or_default_def)
    with bounds show "150 \<le> ?ttl \<and> ?ttl \<le> 900" by simp
  qed
  have none: "pats (patternKey cacheType key) = None \<longrightarrow> ?ttl = ?base"
    by (simp add: effectiveTTL_def getAdaptiveTTL_def)
  from formula bounds searches none show ?thesis
    unfolding Let_def by blast
qed

theorem adaptive_ttl_rounded_and_bounded_witness:
  "effectiveTTL (AdaptiveCacheManager_new\<lparr> accessPatterns := Map.empty \<rparr>) ''searches'' ''k'' None = 300
   \<and> effectiveTTL
        (AdaptiveCacheManager_new
           \<lparr> accessPatterns := [''searches:k'' \<mapsto> \<lparr> count = 9, lastAccess = 0, frequency = 9, created = None \<rparr>] \<rparr>)
        ''searches'' ''k'' None = 450"
proof -
  have "log 10 (10 :: real) = 1" by simp
  then show ?thesis
    using adaptive_ttl_rounded_and_bounded [of Map.empty "''searches''" "''k''"]
          adaptive_ttl_rounded_and_bounded
            [of "[''searches:k'' \<mapsto> \<lparr> count = 9, lastAccess = 0, frequency = 9, created = None \<rparr>]"
                "''searches''" "''k''"]
    by (simp add: Let_def patternKey_def AdaptiveCacheManager_new_def or_default_def)
qed

text \<open>
  Claim C4 as stated fails in its equation: the code rounds. After one hit the frequency
  is 1, the base TTL of \<^verbatim>\<open>searches\<close> is 300, the product
  \<open>300 * (1 + log 10 2 / 2)\<close> lies strictly between 345 and 345.5, and the TTL is 345.
\<close>

theorem adaptive_ttl_is_not_the_exact_product:
  "effectiveTTL (trackAccess AdaptiveCacheManager_new 0 ''searches'' ''k'') ''searches'' ''k'' None = 345
   \<and> real_of_int (effectiveTTL (trackAccess AdaptiveCacheManager_new 0 ''searches'' ''k'') ''searches'' ''k'' None)
       \<noteq> 300 * max 0.5 (min 3 (1 + log 10 (1 + 1) * 0.5))"
proof -
  define l :: real where "l = log 10 (1 + 1)"
  define x :: real where "x = 300 * max 0.5 (min 3 (1 + l * 0.5))"
  have "l = log 10 2" by (simp add: l_def)
  with log10_2_lower log10_2_upper have l: "3 / 10 < l" "l < 91 / 300" by simp_all
  then have "max 0.5 (min 3 (1 + l * 0.5)) = 1 + l * 0.5"
    by (simp add: max_def min_def)
  then have x: "x = 300 + 150 * l" by (simp add: x_def algebra_simps)
  have lo: "345 < x" unfolding x using l(1) by linarith
  have hi: "x < 345 + 1 / 2" unfolding x using l(2) by linarith
  have "\<lfloor>x + 1 / 2\<rfloor> = 345"
  proof (rule floor_unique)
    show "real_of_int 345 \<le> x + 1 / 2" using lo by linarith
    show "x + 1 / 2 < real_of_int 345 + 1" using hi by linarith
  qed
  then have r: "round x = 345" by (simp add: round_def)
  have "effectiveTTL (trackAccess AdaptiveCacheManager_new 0 ''searches'' ''k'') ''searches'' ''k'' None
          = round (300 * max 0.5 (min 3 (1 + log 10 (1 + 1) * 0.5)))"
    by (simp add: effectiveTTL_def getAdaptiveTTL_def trackAccess_def AdaptiveCacheManager_new_def
                  patternKey_def or_default_def Let_def)
  then have e: "effectiveTTL (trackAccess AdaptiveCacheManager_new 0 ''searches'' ''k'') ''searches'' ''k'' None
          = round x"
    by (simp only: x_def l_def)
  have xe: "300 * max 0.5 (min 3 (1 + log 10 (1 + 1) * 0.5)) = x"
    by (simp only: x_def l_def)
  have ne: "real_of_int 345 \<noteq> x" using lo by linarith
  show ?thesis
    unfolding xe e r using ne by simp
qed

section \<open>Connection manager: properties\<close>

lemma checkRateLimit_full:
  assumes conn: "connections cm ''cohere'' = Some conn"
      and lim: "conn_rateLimiter conn = Some limiter"
      and full: "requests limiter \<ge> maxRequests limiter"
      and window: "now \<le> resetTime limiter"
  shows "checkRateLimit cm now ''cohere''
           = (Some (RateLimitExceeded (ceil_seconds (resetTime limiter - now))), cm)"
proof -
  have c: "conn\<lparr> conn_rateLimiter := Some limiter \<rparr> = conn"
    using lim by simp
  have m: "(connections cm)(''cohere'' \<mapsto> conn) = connections cm"
    using conn by (rule map_upd_triv)
  show ?thesis
    using conn lim full window by (simp add: checkRateLimit_def Let_def c m)
qed

lemma attempt_body_full:
  assumes conn: "connections (manager s) ''cohere'' = Some conn"
      and lim: "conn_rateLimiter conn = Some limiter"
      and full: "requests limiter \<ge> maxRequests limiter"
      and window: "now \<le> resetTime limiter"
  shows "attempt_body s now ''cohere'' cl operation
           = (Inl (RateLimitExceeded (ceil_seconds (resetTime limiter - now))), s)"
  by (simp add: attempt_body_def checkRateLimit_full [OF conn lim full window])

lemma retry_loop_full:
  assumes conn: "connections (manager s) ''cohere'' = Some conn"
      and lim: "conn_rateLimiter conn = Some limiter"
      and full: "requests limiter \<ge> maxRequests limiter"
      and window: "\<forall>i \<le> retries config. clock i \<le> resetTime limiter"
      and start: "a \<le> retries config"
  shows "retry_loop config s clock ''cohere'' cl operation a e
           = (Inl (RateLimitExceeded (ceil_seconds (resetTime limiter - clock (retries config)))),
              s\<lparr> delays := delays s @ map (\<lambda>i. retryDelay config * 2 ^ i) [a ..< retries config] \<rparr>)"
  using conn start
proof (induction "retries config - a" arbitrary: a s e)
  case 0
  then have a: "a = retries config" by simp
  from window have "clock (retries config) \<le> resetTime limiter" by simp
  note body = attempt_body_full [OF "0.prems"(1) lim full this]
  show ?case
    by (subst retry_loop.simps) (simp del: retry_loop.simps add: a body)
next
  case (Suc k)
  then have a: "a < retries config" by simp
  with window have "clock a \<le> resetTime limiter" by simp
  note body = attempt_body_full [OF Suc.prems(1) lim full this]
  let ?s1 = "s\<lparr> delays := delays s @ [retryDelay config * 2 ^ a] \<rparr>"
  have step: "retry_loop config ?s1 clock ''cohere'' cl operation (Suc a) e'
           = (Inl (RateLimitExceeded (ceil_seconds (resetTime limiter - clock (retries config)))),
              ?s1\<lparr> delays := delays ?s1 @ map (\<lambda>i. retryDelay config * 2 ^ i) [Suc a ..< retries config] \<rparr>)"
    for e'
    using Suc.hyps(2) Suc.prems(1) a by (intro Suc.hyps(1)) simp_all
  have upt: "[a ..< retries config] = a # [Suc a ..< retries config]"
    using a by (simp add: upt_conv_Cons)
  from a have le: "a \<le> retries config" by simp
  show ?case
    by (subst retry_loop.simps)
       (simp del: retry_loop.simps add: body a le retryCondition_def step upt)
qed

lemma backoff_clock_in_window: "i \<le> 3 \<Longrightarrow> 1000 * (2 ^ i - 1) \<le> (60000 :: int)"
proof -
  assume "i \<le> 3"
  then have "(2 :: int) ^ i \<le> 2 ^ 3" by (intro power_increasing) simp_all
  then show ?thesis by simp
qed

text \<open>
  Claim C5, as the code has it. The Cohere counter has reached its ceiling and the window
  is still running at the time of every attempt. Then no attempt invokes the operation
  (the world is unchanged), every attempt throws the rate-limit error, which has no
  response and therefore meets the retry condition, and the executor sleeps the backoff
  delay and tries again until the retries are used up. The call fails with the rate-limit
  error of the last attempt, which carries the remaining time of the window in seconds,
  rounded up.
\<close>

theorem rate_limited_call_is_retried:
  assumes conn: "connections cm ''cohere'' = Some conn"
      and lim: "conn_rateLimiter conn = Some limiter"
      and full: "requests limiter \<ge> maxRequests limiter"
      and window: "\<forall>i \<le> retries (retryConfig cm). clock i \<le> resetTime limiter"
  shows "executeWithRetry cm clock ''cohere'' operation w
           = (Inl (RateLimitExceeded
                     (ceil_seconds (resetTime limiter - clock (retries (retryConfig cm))))),
              \<lparr> manager = cm, world = w,
                delays = map (\<lambda>i. retryDelay (retryConfig cm) * 2 ^ i)
                             [0 ..< retries (retryConfig cm)] \<rparr>)"
  using retry_loop_full [where s = "\<lparr> manager = cm, world = w, delays = [] \<rparr>"
                           and config = "retryConfig cm" and a = 0, OF _ lim full window]
        conn
  by (simp del: retry_loop.simps add: executeWithRetry_def)

theorem rate_limited_call_is_retried_witness:
  "(let base = ConnectionManager_new (1 :: nat) 2 3 4 0;
        cm = base\<lparr> connections := (connections base)
                (''cohere'' \<mapsto> \<lparr> conn_client = 3,
                                  conn_rateLimiter = Some \<lparr> requests = 100, resetTime = 60000,
                                                            maxRequests = 100 \<rparr> \<rparr>) \<rparr>
    in executeWithRetry cm (\<lambda>i. 1000 * (2 ^ i - 1)) ''cohere''
         (\<lambda>cl n. (Inr True :: error + bool, Suc n)) (0 :: nat)
       = (Inl (RateLimitExceeded 53), \<lparr> manager = cm, world = 0, delays = [1000, 2000, 4000] \<rparr>))"
proof -
  let ?base = "ConnectionManager_new (1 :: nat) 2 3 4 0"
  let ?limiter = "\<lparr> requests = 100, resetTime = 60000, maxRequests = 100 \<rparr>"
  let ?conn = "\<lparr> conn_client = 3 :: nat, conn_rateLimiter = Some ?limiter \<rparr>"
  let ?cm = "?base\<lparr> connections := (connections ?base)(''cohere'' \<mapsto> ?conn) \<rparr>"
  have conn: "connections ?cm ''cohere'' = Some ?conn" by simp
  have lim: "conn_rateLimiter ?conn = Some ?limiter" by simp
  have full: "requests ?limiter \<ge> maxRequests ?limiter" by simp
  have cfg: "retryConfig ?cm = \<lparr> retries = 3, retryDelay = 1000 \<rparr>"
    by (simp add: ConnectionManager_new_def)
  have window: "\<forall>i \<le> retries (retryConfig ?cm). 1000 * (2 ^ i - 1) \<le> resetTime ?limiter"
    using backoff_clock_in_window by (simp add: ConnectionManager_new_def)
  have upt3: "[0 ..< 3] = [0, 1, 2]" by (simp add: upt_rec)
  from rate_limited_call_is_retried
         [where cm = ?cm and conn = ?conn and limiter = ?limiter
            and clock = "\<lambda>i. 1000 * (2 ^ i - 1)"
            and operation = "\<lambda>cl n. (Inr True :: error + bool, Suc n)" and w = "0 :: nat",
          OF conn lim full window]
  show ?thesis
    by (simp del: retry_loop.simps add: Let_def ConnectionManager_new_def upt3 ceil_seconds_def)
qed

text \<open>
  Claim C5 as stated fails: with 100 of 100 requests used and the window open until time
  60000, a call entered at time 0 makes four attempts and sleeps 1000, 2000 and 4000 ms
  between them before it throws the rate-limit error.
\<close>

theorem rate_limit_rejection_consumes_retries:
  "(let base = ConnectionManager_new (1 :: nat) 2 3 4 0;
        cm = base\<lparr> connections := (connections base)
                (''cohere'' \<mapsto> \<lparr> conn_client = 3,
                                  conn_rateLimiter = Some \<lparr> requests = 100, resetTime = 60000,
                                                            maxRequests = 100 \<rparr> \<rparr>) \<rparr>;
        r = executeWithRetry cm (\<lambda>i. 1000 * (2 ^ i - 1)) ''cohere''
              (\<lambda>cl n. (Inr True :: error + bool, Suc n)) (0 :: nat)
    in fst r = Inl (RateLimitExceeded 53) \<and> world (snd r) = 0 \<and> delays (snd r) \<noteq> []
     \<and> delays (snd r) = [1000, 2000, 4000])"
  by (simp add: Let_def executeWithRetry_def ConnectionManager_new_def attempt_body_def
                checkRateLimit_def retryCondition_def ceil_seconds_def)




section \<open>Request deduplicator: properties\<close>

lemma dedup_inv_new: "dedup_inv RequestDeduplicator_new"
  by (simp add: dedup_inv_def RequestDeduplicator_new_def)

lemma dedupe_hit:
  "pending d key = Some p \<Longrightarrow>
   dedupe d key = (p, d\<lparr> dedup_stats := (dedup_stats d)\<lparr> total := total (dedup_stats d) + 1,
                                                       deduped := deduped (dedup_stats d) + 1 \<rparr> \<rparr>)"
  by (simp add: dedupe_def)

lemma dedupe_miss:
  "pending d key = None \<Longrightarrow>
   dedupe d key = (length (promises d),
                   d\<lparr> dedup_stats := (dedup_stats d)\<lparr> total := total (dedup_stats d) + 1 \<rparr>,
                      promises := promises d @ [(key, Pending)],
                      pending := (pending d)(key \<mapsto> length (promises d)) \<rparr>)"
  by (simp add: dedupe_def Let_def)

lemma dedup_inv_stats: "dedup_inv (d\<lparr> dedup_stats := st \<rparr>) = dedup_inv d"
  by (simp add: dedup_inv_def)

lemma dedup_inv_dedupe:
  assumes inv: "dedup_inv d"
  shows "dedup_inv (snd (dedupe d key))"
proof (cases "pending d key")
  case (Some p)
  with inv show ?thesis
    by (simp only: dedupe_hit snd_conv dedup_inv_stats)
next
  case None
  have a: "\<And>k' q. pending d k' = Some q \<Longrightarrow> q < length (promises d) \<and> promises d ! q = (k', Pending)"
    and b: "\<And>q k'. q < length (promises d) \<Longrightarrow> promises d ! q = (k', Pending) \<Longrightarrow> pending d k' = Some q"
    using inv unfolding dedup_inv_def by blast+
  let ?n = "length (promises d)"
  let ?d' = "d\<lparr> dedup_stats := (dedup_stats d)\<lparr> total := total (dedup_stats d) + 1 \<rparr>,
                 promises := promises d @ [(key, Pending)],
                 pending := (pending d)(key \<mapsto> ?n) \<rparr>"
  have c1: "q < length (promises ?d') \<and> promises ?d' ! q = (k', Pending)"
    if h: "pending ?d' k' = Some q" for k' q
    proof (cases "k' = key")
      case True
      with h have "q = ?n" by simp
      with True show ?thesis by simp
    next
      case False
      with h have "pending d k' = Some q" by simp
      from a [OF this] show ?thesis by (simp add: nth_append)
    qed
  have c2: "pending ?d' k' = Some q"
    if h: "q < length (promises ?d') \<and> promises ?d' ! q = (k', Pending)" for q k'
    proof (cases "q < ?n")
      case True
      with h have old: "promises d ! q = (k', Pending)" by (simp add: nth_append)
      from b [OF True old] have e: "pending d k' = Some q" .
      with None have "k' \<noteq> key" by auto
      with e show ?thesis by simp
    next
      case False
      with h have q: "q = ?n" by simp
      with h have "k' = key" by simp
      with q show ?thesis by simp
    qed
  have "dedup_inv ?d'"
    unfolding dedup_inv_def using c1 c2 by blast
  then show ?thesis by (simp only: dedupe_miss [OF None] snd_conv)
qed

lemma settle_noop:
  "\<not> (p < length (promises d) \<and> snd (promises d ! p) = Pending) \<Longrightarrow> settle d p outcome = d"
  by (auto simp add: settle_def)

lemma settle_pending:
  "p < length (promises d) \<Longrightarrow> promises d ! p = (k, Pending) \<Longrightarrow>
   settle d p outcome =
     d\<lparr> pending := (pending d)(k := None),
        promises := (promises d)[p := (k, case outcome of Inl e \<Rightarrow> Rejected e | Inr v \<Rightarrow> Resolved v)] \<rparr>"
  by (simp add: settle_def)

lemma settled_not_pending:
  "(case outcome of Inl e \<Rightarrow> Rejected e | Inr v \<Rightarrow> Resolved v) \<noteq> Pending"
  by (cases outcome) simp_all

lemma dedup_inv_settle:
  assumes inv: "dedup_inv d"
  shows "dedup_inv (settle d p outcome)"
proof (cases "p < length (promises d) \<and> snd (promises d ! p) = Pending")
  case False
  then have "settle d p outcome = d" by (rule settle_noop)
  with inv show ?thesis by (simp only:)
next
  case True
  then obtain k where p: "p < length (promises d)" "promises d ! p = (k, Pending)"
    by (cases "promises d ! p") auto
  have a: "\<And>k' q. pending d k' = Some q \<Longrightarrow> q < length (promises d) \<and> promises d ! q = (k', Pending)"
    and b: "\<And>q k'. q < length (promises d) \<Longrightarrow> promises d ! q = (k', Pending) \<Longrightarrow> pending d k' = Some q"
    using inv unfolding dedup_inv_def by blast+
  from b p have entry: "pending d k = Some p" by simp
  let ?st = "case outcome of Inl e \<Rightarrow> Rejected e | Inr v \<Rightarrow> Resolved v"
  let ?d' = "d\<lparr> pending := (pending d)(k := None), promises := (promises d)[p := (k, ?st)] \<rparr>"
  have c1: "q < length (promises ?d') \<and> promises ?d' ! q = (k', Pending)"
    if "pending ?d' k' = Some q" for k' q
  proof -
    from that have k': "k' \<noteq> k" "pending d k' = Some q" by (simp_all split: if_splits)
    from a [OF k'(2)] have q: "q < length (promises d)" "promises d ! q = (k', Pending)" by simp_all
    with p k'(1) have "q \<noteq> p" by auto
    with q show ?thesis by simp
  qed
  have c2: "pending ?d' k' = Some q"
    if h: "q < length (promises ?d') \<and> promises ?d' ! q = (k', Pending)" for q k'
  proof -
    from h have ql: "q < length (promises d)" by simp
    have "q \<noteq> p"
    proof
      assume "q = p"
      with h p(1) have "?st = Pending" by simp
      then show False using settled_not_pending [of outcome] by simp
    qed
    with h have old: "promises d ! q = (k', Pending)" by simp
    from b [OF ql old] have e: "pending d k' = Some q" .
    have "k' \<noteq> k"
    proof
      assume "k' = k"
      with e entry have "q = p" by simp
      with \<open>q \<noteq> p\<close> show False by simp
    qed
    with e show ?thesis by simp
  qed
  have "dedup_inv ?d'"
    unfolding dedup_inv_def using c1 c2 by blast
  then show ?thesis by (simp only: settle_pending [OF p])
qed


lemma dedup_inv_run:
  "dedup_inv d \<Longrightarrow> dedup_inv (snd (run_dedup d evs))"
proof (induction evs arbitrary: d)
  case Nil
  then show ?case by simp
next
  case (Cons ev evs)
  show ?case
  proof (cases ev)
    case (Dedupe key)
    have "dedup_inv (snd (run_dedup (snd (dedupe d key)) evs))"
      by (rule Cons.IH [OF dedup_inv_dedupe [OF Cons.prems]])
    then show ?thesis using Dedupe by (simp add: split_def Let_def)
  next
    case (Settle q outcome)
    have "dedup_inv (snd (run_dedup (settle d q outcome) evs))"
      by (rule Cons.IH [OF dedup_inv_settle [OF Cons.prems]])
    then show ?thesis using Settle by simp
  qed
qed

lemma invocations_update:
  "q < length (promises d) \<Longrightarrow>
   invocations (d\<lparr> pending := m, promises := (promises d)[q := (fst (promises d ! q), st)] \<rparr>) key
     = invocations d key"
proof -
  assume q: "q < length (promises d)"
  have "map fst ((promises d)[q := (fst (promises d ! q), st)]) = map fst (promises d)"
    using q by (simp add: map_update list_update_same_conv)
  then have "length (filter (\<lambda>k. k = key) (map fst ((promises d)[q := (fst (promises d ! q), st)])))
           = length (filter (\<lambda>k. k = key) (map fst (promises d)))"
    by simp
  then show ?thesis by (simp add: invocations_def filter_map comp_def)
qed

lemma dedupe_keeps_request:
  assumes "pending d K = Some p"
  shows "pending (snd (dedupe d key)) K = Some p
       \<and> invocations (snd (dedupe d key)) K = invocations d K
       \<and> (key = K \<longrightarrow> fst (dedupe d key) = p)"
proof (cases "pending d key")
  case None
  with assms have "key \<noteq> K" by auto
  with assms show ?thesis by (simp add: dedupe_miss [OF None] invocations_def)
next
  case (Some q)
  with assms show ?thesis by (auto simp add: dedupe_hit invocations_def)
qed

lemma settle_keeps_request:
  assumes inv: "dedup_inv d" and entry: "pending d K = Some p" and other: "q \<noteq> p"
  shows "pending (settle d q outcome) K = Some p
       \<and> invocations (settle d q outcome) K = invocations d K"
proof (cases "q < length (promises d) \<and> snd (promises d ! q) = Pending")
  case False
  then have "settle d q outcome = d" by (rule settle_noop)
  with entry show ?thesis by simp
next
  case True
  then obtain k where q: "q < length (promises d)" "promises d ! q = (k, Pending)"
    by (cases "promises d ! q") auto
  from inv q have "pending d k = Some q" unfolding dedup_inv_def by blast
  with entry other have "k \<noteq> K" by auto
  have "invocations (d\<lparr> pending := (pending d)(k := None),
                          promises := (promises d)[q := (k, st)] \<rparr>) K = invocations d K" for st
    using invocations_update [OF q(1), where m = "(pending d)(k := None)" and st = st and key = K] q(2)
    by simp
  with entry \<open>k \<noteq> K\<close> show ?thesis by (simp add: settle_pending [OF q])
qed

lemma run_keeps_request:
  assumes "dedup_inv d" and "pending d K = Some p" and "\<not> settles p evs"
  shows "pending (snd (run_dedup d evs)) K = Some p
       \<and> set (map snd (filter (\<lambda>(k, q). k = K) (fst (run_dedup d evs)))) \<subseteq> {p}
       \<and> invocations (snd (run_dedup d evs)) K = invocations d K"
  using assms
proof (induction evs arbitrary: d)
  case Nil
  then show ?case by simp
next
  case (Cons ev evs)
  show ?case
  proof (cases ev)
    case (Dedupe key)
    let ?d1 = "snd (dedupe d key)"
    note step = dedupe_keeps_request [OF Cons.prems(2), of key]
    from Cons.prems(3) Dedupe have rest: "\<not> settles p evs" by simp
    from step have e: "pending ?d1 K = Some p" by simp
    note ih = Cons.IH [OF dedup_inv_dedupe [OF Cons.prems(1)] e rest]
    with step show ?thesis using Dedupe by (auto simp add: split_def Let_def)
  next
    case (Settle q outcome)
    from Cons.prems(3) Settle have other: "q \<noteq> p" and rest: "\<not> settles p evs" by simp_all
    note step = settle_keeps_request [OF Cons.prems(1,2) other, of outcome]
    from step have e: "pending (settle d q outcome) K = Some p" by simp
    note ih = Cons.IH [OF dedup_inv_settle [OF Cons.prems(1)] e rest]
    with step show ?thesis using Settle by simp
  qed
qed

lemma filter_index: "p < n \<Longrightarrow> filter (\<lambda>q. q = p) [0 ..< n] = [p]"
proof (induction n)
  case 0
  then show ?case by simp
next
  case (Suc n)
  show ?case
  proof (cases "p = n")
    case True
    have "filter (\<lambda>q. q = n) [0 ..< n] = []" by (simp add: filter_empty_conv)
    with True show ?thesis by simp
  next
    case False
    with Suc have "filter (\<lambda>q. q = p) [0 ..< n] = [p]" by simp
    with False show ?thesis by simp
  qed
qed

lemma in_flight_entry:
  assumes inv: "dedup_inv d" and entry: "pending d K = Some p"
  shows "in_flight d K = [p]"
proof -
  from inv entry have p: "p < length (promises d)" "promises d ! p = (K, Pending)"
    unfolding dedup_inv_def by blast+
  have "promises d ! q = (K, Pending) \<longleftrightarrow> q = p" if "q \<in> set [0 ..< length (promises d)]" for q
  proof
    assume "promises d ! q = (K, Pending)"
    moreover from that have "q < length (promises d)" by simp
    ultimately have "pending d K = Some q" using inv unfolding dedup_inv_def by blast
    with entry show "q = p" by simp
  next
    assume "q = p"
    with p show "promises d ! q = (K, Pending)" by simp
  qed
  then have "in_flight d K = filter (\<lambda>q. q = p) [0 ..< length (promises d)]"
    unfolding in_flight_def by (intro filter_cong) simp_all
  with p show ?thesis by (simp add: filter_index)
qed

lemma in_flight_idle:
  assumes inv: "dedup_inv d" and idle: "pending d K = None"
  shows "in_flight d K = []"
proof -
  have "promises d ! q \<noteq> (K, Pending)" if "q < length (promises d)" for q
  proof
    assume "promises d ! q = (K, Pending)"
    with inv that have "pending d K = Some q" unfolding dedup_inv_def by blast
    with idle show False by simp
  qed
  then show ?thesis by (simp add: in_flight_def filter_empty_conv)
qed

text \<open>
  Claim C2. After any history of calls and settlements, let no request be in flight under
  the key \<open>K\<close>. A call of \<^verbatim>\<open>dedupe\<close> under \<open>K\<close> then starts a request \<open>p\<close>.
  Let any events follow that do not settle \<open>p\<close>: further calls under \<open>K\<close>, calls under
  other keys, settlements of other requests. Then every call under \<open>K\<close> was handed the
  same promise \<open>p\<close>, the request function has been invoked under \<open>K\<close> exactly once
  more than before, the table holds the entry \<open>p\<close> for \<open>K\<close>, and \<open>p\<close> is the only
  request in flight under \<open>K\<close>. When \<open>p\<close> settles, with a value or with an error, the
  promise all these callers hold carries that outcome, the entry for \<open>K\<close> is gone and
  no request is in flight under \<open>K\<close>.
\<close>

theorem dedupe_runs_request_once:
  assumes idle: "pending (snd (run_dedup RequestDeduplicator_new history)) K = None"
      and unsettled: "\<not> settles (length (promises (snd (run_dedup RequestDeduplicator_new history)))) evs"
  shows "(let d = snd (run_dedup RequestDeduplicator_new history);
              p = length (promises d);
              (handed, d1) = run_dedup d (Dedupe K # evs);
              d2 = settle d1 p outcome
          in set (map snd (filter (\<lambda>(k, q). k = K) handed)) = {p}
           \<and> invocations d1 K = invocations d K + 1
           \<and> pending d1 K = Some p \<and> in_flight d1 K = [p]
           \<and> promises d2 ! p = (K, case outcome of Inl e \<Rightarrow> Rejected e | Inr v \<Rightarrow> Resolved v)
           \<and> pending d2 K = None \<and> in_flight d2 K = []
           \<and> invocations d2 K = invocations d K + 1)"
proof -
  define d where "d = snd (run_dedup RequestDeduplicator_new history)"
  define p where "p = length (promises d)"
  define d0 where "d0 = snd (dedupe d K)"
  define handed where "handed = (K, p) # fst (run_dedup d0 evs)"
  define d1 where "d1 = snd (run_dedup d0 evs)"
  define d2 where "d2 = settle d1 p outcome"
  let ?st = "case outcome of Inl e \<Rightarrow> Rejected e | Inr v \<Rightarrow> Resolved v"
  have inv: "dedup_inv d"
    unfolding d_def by (rule dedup_inv_run [OF dedup_inv_new])
  from idle have idle': "pending d K = None" by (simp add: d_def)
  have first: "dedupe d K = (p, d0)"
    by (simp add: d0_def p_def dedupe_miss [OF idle'])
  have inv0: "dedup_inv d0"
    unfolding d0_def by (rule dedup_inv_dedupe [OF inv])
  have entry0: "pending d0 K = Some p"
    by (simp add: d0_def p_def dedupe_miss [OF idle'])
  have count0: "invocations d0 K = invocations d K + 1"
    by (simp add: d0_def dedupe_miss [OF idle'] invocations_def)
  have run: "run_dedup d (Dedupe K # evs) = (handed, d1)"
    by (simp add: first handed_def d1_def split_def Let_def)
  from unsettled have unsettled': "\<not> settles p evs" by (simp add: p_def d_def)
  note kept = run_keeps_request [OF inv0 entry0 unsettled', folded d1_def]
  have inv1: "dedup_inv d1"
    unfolding d1_def by (rule dedup_inv_run [OF inv0])
  from kept have entry1: "pending d1 K = Some p" by simp
  from kept have same: "set (map snd (filter (\<lambda>(k, q). k = K) handed)) = {p}"
    by (auto simp add: handed_def)
  from kept count0 have count1: "invocations d1 K = invocations d K + 1" by simp
  have flight1: "in_flight d1 K = [p]" by (rule in_flight_entry [OF inv1 entry1])
  from inv1 entry1 have slot: "p < length (promises d1)" "promises d1 ! p = (K, Pending)"
    unfolding dedup_inv_def by blast+
  have d2: "d2 = d1\<lparr> pending := (pending d1)(K := None), promises := (promises d1)[p := (K, ?st)] \<rparr>"
    unfolding d2_def by (rule settle_pending [OF slot])
  have inv2: "dedup_inv d2"
    unfolding d2_def by (rule dedup_inv_settle [OF inv1])
  have entry2: "pending d2 K = None" by (simp add: d2)
  have outcome2: "promises d2 ! p = (K, ?st)" using slot(1) by (simp add: d2)
  have flight2: "in_flight d2 K = []" by (rule in_flight_idle [OF inv2 entry2])
  have count2: "invocations d2 K = invocations d K + 1"
    using invocations_update [OF slot(1), where m = "(pending d1)(K := None)" and st = ?st and key = K]
          slot(2) count1
    by (simp add: d2)
  show ?thesis
    unfolding Let_def d_def [symmetric] p_def [symmetric] run prod.case d2_def [symmetric]
    using same count1 entry1 flight1 outcome2 entry2 flight2 count2 by simp
qed

theorem dedupe_runs_request_once_witness:
  "(let d = snd (run_dedup RequestDeduplicator_new
                   [Dedupe ''a'', Dedupe ''b'',
                    Settle 0 (Inl ''timeout'') :: (string, string, nat) dedup_event]);
        (handed, d1) = run_dedup d [Dedupe ''a'', Dedupe ''a'', Dedupe ''c'', Settle 1 (Inr 7), Dedupe ''a''];
        d2 = settle d1 2 (Inr 42)
    in pending d ''a'' = None
     \<and> \<not> settles 2 [Dedupe ''a'', Dedupe ''c'', Settle 1 (Inr 7) :: (string, string, nat) dedup_event, Dedupe ''a'']
     \<and> handed = [(''a'', 2), (''a'', 2), (''c'', 3), (''a'', 2)]
     \<and> invocations d ''a'' = 1 \<and> invocations d1 ''a'' = 2
     \<and> pending d1 ''a'' = Some 2 \<and> in_flight d1 ''a'' = [2]
     \<and> promises d2 ! 2 = (''a'', Resolved 42)
     \<and> pending d2 ''a'' = None \<and> in_flight d2 ''a'' = []
     \<and> invocations d2 ''a'' = 2)"
proof -
  let ?history = "[Dedupe ''a'', Dedupe ''b'', Settle 0 (Inl ''timeout'')] :: (string, string, nat) dedup_event list"
  let ?evs = "[Dedupe ''a'', Dedupe ''c'', Settle 1 (Inr 7), Dedupe ''a''] :: (string, string, nat) dedup_event list"
  have upt4: "[0 ..< 4] = [0, 1, 2, 3]" by (simp add: upt_rec)
  have idle: "pending (snd (run_dedup RequestDeduplicator_new ?history)) ''a'' = None"
    by (simp add: RequestDeduplicator_new_def dedupe_def settle_def Let_def)
  have unsettled: "\<not> settles (length (promises (snd (run_dedup RequestDeduplicator_new ?history)))) ?evs"
    by (simp add: RequestDeduplicator_new_def dedupe_def settle_def Let_def)
  from dedupe_runs_request_once [OF idle unsettled, of "Inr 42"]
  show ?thesis
    by (simp add: RequestDeduplicator_new_def dedupe_def settle_def Let_def invocations_def
                  in_flight_def upt4)
qed

end
